theory Spec2Isabelle
  imports Complex_Main "HOL-Library.Sublist" "HOL-Library.AList"
begin

unbundle bit_operations_syntax

section \<open>Data model of \<^verbatim>\<open>Lib/gftools/fix.py\<close>\<close>

text \<open>
  Python exceptions are values. Every \<^verbatim>\<open>raise\<close>, every failing \<^verbatim>\<open>assert\<close> and every
  failing subscript of the source is a branch that returns \<open>Inl\<close> of one of these.
\<close>

datatype error =
    KeyError
  | IndexError
  | ValueError
  | NameError
  | AssertionError
  | NotImplementedError
  | CalledProcessError
  | AttributeError

text \<open>
  The tables of a \<^verbatim>\<open>TTFont\<close> that the fix functions read or write, each with exactly the
  attributes the source touches. Python integers are unbounded, hence \<open>int\<close>. The two
  attributes that fontTools decodes as fixed-point numbers (\<^verbatim>\<open>post.italicAngle\<close> and an
  fvar axis' \<^verbatim>\<open>defaultValue\<close>) are \<open>real\<close>; the source only compares the first with 0
  and truncates the second.
\<close>

record panose_t =
  bFamilyType :: int
  bProportion :: int

record os2_table =
  version :: int
  fsType :: int
  usWeightClass :: int
  fsSelection :: int
  panose :: panose_t
  xAvgCharWidth :: int
  usWinAscent :: int
  usWinDescent :: int
  sTypoAscender :: int
  sTypoDescender :: int
  sTypoLineGap :: int

record head_table =
  flags :: int
  macStyle :: int
  yMin :: int
  yMax :: int

record hhea_table =
  ascent :: int
  descent :: int
  lineGap :: int
  advanceWidthMax :: int

record post_table =
  italicAngle :: real
  isFixedPitch :: int

record name_record =
  nameID :: int
  platformID :: int
  platEncID :: int
  langID :: int
  string :: string

text \<open>
  A Python \<^verbatim>\<open>dict\<close> whose iteration order matters is an association list with distinct
  keys, in insertion order: \<open>map_of\<close> reads it, \<open>AList.update\<close> is \<^verbatim>\<open>d[k] = v\<close> (an existing
  key keeps its place, a new one goes last), \<open>map snd\<close> is \<^verbatim>\<open>d.values()\<close>.
\<close>

text \<open>
  A cmap subtable. fontTools' constructor \<^verbatim>\<open>cmap_format_12(12)\<close> leaves the attribute
  \<^verbatim>\<open>cmap\<close> unset, and reading an unset attribute raises \<^verbatim>\<open>AttributeError\<close>: \<open>None\<close>
  is the unset attribute.
\<close>

record cmap_subtable =
  cmap_platformID :: int
  cmap_platEncID :: int
  cmap_language :: int
  cmap_format :: int
  cmap :: "(int \<times> string) list option"

record axis =
  axisTag :: string
  defaultValue :: real

record hvar_table =
  AdvWidthMap :: "(string \<times> int) list option"
  LsbMap :: "(string \<times> int) list option"
  RsbMap :: "(string \<times> int) list option"

datatype table =
    OS2 os2_table
  | Head head_table
  | Hhea hhea_table
  | Post post_table
  | Name "name_record list"
  | Cmap "cmap_subtable list"
  | Hmtx "(string \<times> int \<times> int) list"
  | Fvar "axis list"
  | COLR int
  | Maxp int
  | Glyf "(string \<times> int) list"
  | HVAR hvar_table
  | Raw

text \<open>
  A \<^verbatim>\<open>TTFont\<close>: the mapping from table tag to table (\<^verbatim>\<open>ttFont[tag]\<close>, \<^verbatim>\<open>tag in ttFont\<close>,
  \<^verbatim>\<open>del ttFont[tag]\<close>, \<^verbatim>\<open>ttFont.keys()\<close>), the glyph order, and the style name.
  \<open>Hmtx\<close> carries \<^verbatim>\<open>hmtx.metrics\<close> (glyph name to (advance, lsb)), \<open>Glyf\<close> the
  \<^verbatim>\<open>numberOfContours\<close> of each glyph, \<open>Maxp\<close> is \<^verbatim>\<open>maxp.numGlyphs\<close>, \<open>COLR\<close> the table's
  version, \<open>Raw\<close> any table whose content the fix functions never look at.

  Modelled from the spec: \<^verbatim>\<open>font_stylename\<close> of \<^verbatim>\<open>gftools.utils\<close> is missing from the
  sources; the spec's Font has ``a style name string'', which is the field \<open>stylename\<close>.
\<close>

record font =
  tables :: "string \<rightharpoonup> table"
  glyphOrder :: "string list"
  stylename :: string

definition font_stylename :: "font \<Rightarrow> string" where
  "font_stylename f = stylename f"

subsection \<open>Table access\<close>

text \<open>
  \<^verbatim>\<open>ttFont["OS/2"]\<close> raises \<^verbatim>\<open>KeyError\<close> when the table is absent. A tag bound to a table
  of another kind cannot be built by fontTools; the accessors reject it the same way.
\<close>

definition get_OS2 :: "font \<Rightarrow> error + os2_table" where
  "get_OS2 f = (case tables f ''OS/2'' of Some (OS2 t) \<Rightarrow> Inr t | _ \<Rightarrow> Inl KeyError)"

definition get_head :: "font \<Rightarrow> error + head_table" where
  "get_head f = (case tables f ''head'' of Some (Head t) \<Rightarrow> Inr t | _ \<Rightarrow> Inl KeyError)"

definition get_hhea :: "font \<Rightarrow> error + hhea_table" where
  "get_hhea f = (case tables f ''hhea'' of Some (Hhea t) \<Rightarrow> Inr t | _ \<Rightarrow> Inl KeyError)"

definition get_post :: "font \<Rightarrow> error + post_table" where
  "get_post f = (case tables f ''post'' of Some (Post t) \<Rightarrow> Inr t | _ \<Rightarrow> Inl KeyError)"

definition get_name :: "font \<Rightarrow> error + name_record list" where
  "get_name f = (case tables f ''name'' of Some (Name t) \<Rightarrow> Inr t | _ \<Rightarrow> Inl KeyError)"

definition get_hmtx :: "font \<Rightarrow> error + (string \<times> int \<times> int) list" where
  "get_hmtx f = (case tables f ''hmtx'' of Some (Hmtx t) \<Rightarrow> Inr t | _ \<Rightarrow> Inl KeyError)"

definition set_table :: "string \<Rightarrow> table \<Rightarrow> font \<Rightarrow> font" where
  "set_table tag t f = f\<lparr>tables := (tables f)(tag \<mapsto> t)\<rparr>"

definition has_table :: "string \<Rightarrow> font \<Rightarrow> bool" where
  "has_table tag f = (tables f tag \<noteq> None)"

section \<open>Table pruning\<close>

definition UNWANTED_TABLES :: "string set" where
  "UNWANTED_TABLES =
     {''FFTM'', ''TTFA'', ''TSI0'', ''TSI1'', ''TSI2'', ''TSI3'', ''TSI5'', ''prop'', ''Debg''}"

text \<open>
  \<^verbatim>\<open>remove_tables(ttFont, tables=None)\<close>. The argument is \<open>None\<close> or an iterable of tags;
  \<^verbatim>\<open>not tables\<close> holds for \<open>None\<close> and for an empty iterable alike. The two warnings and
  the info line are logging only. The function deletes the tables in place and returns
  \<^verbatim>\<open>None\<close> on every path, so the model returns the font after the call.
\<close>

definition requested_tables :: "string list option \<Rightarrow> string set" where
  "requested_tables tbls =
     (case tbls of None \<Rightarrow> UNWANTED_TABLES
      | Some ts \<Rightarrow> if ts = [] then UNWANTED_TABLES else set ts)"

definition remove_tables :: "font \<Rightarrow> string list option \<Rightarrow> font" where
  "remove_tables ttFont tbls =
     (let tables_to_remove = requested_tables tbls;
          font_tables = dom (tables ttFont);
          tables_to_remove = UNWANTED_TABLES \<inter> font_tables \<inter> tables_to_remove
      in if tables_to_remove = {} then ttFont
         else ttFont\<lparr>tables := tables ttFont |` (- tables_to_remove)\<rparr>)"

section \<open>Style names and the single-font rules\<close>

text \<open>
  \<^verbatim>\<open>str.split()\<close> with no argument: the maximal runs of non-whitespace characters, in
  order. \<open>is_space\<close> lists the characters below 256 for which Python's \<^verbatim>\<open>str.isspace\<close>
  holds; a \<open>char\<close> is one of the first 256 code points.
\<close>

definition is_space :: "char \<Rightarrow> bool" where
  "is_space c = (c \<in> set [CHR '' '', CHR 0x09, CHR 0x0A, CHR 0x0B, CHR 0x0C, CHR 0x0D,
                           CHR 0x1C, CHR 0x1D, CHR 0x1E, CHR 0x1F, CHR 0x85, CHR 0xA0])"

fun split_from :: "string \<Rightarrow> string \<Rightarrow> string list" where
  "split_from cur [] = (if cur = [] then [] else [cur])"
| "split_from cur (c # cs) =
     (if is_space c then (if cur = [] then split_from [] cs else cur # split_from [] cs)
      else split_from (cur @ [c]) cs)"

definition str_split :: "string \<Rightarrow> string list" where
  "str_split s = split_from [] s"

text \<open>
  \<^verbatim>\<open>_KNOWN_WEIGHTS\<close> is imported from \<^verbatim>\<open>gftools.util.google_fonts\<close>, which is not among the
  sources, so the table is a parameter \<open>known\<close> (a \<^verbatim>\<open>dict\<close> from weight name to weight
  class). The module then deletes the key \<^verbatim>\<open>""\<close> and sets two entries.
\<close>

definition WEIGHT_NAMES :: "(string \<times> int) list \<Rightarrow> (string \<times> int) list" where
  "WEIGHT_NAMES known =
     AList.update ''ExtraBlack'' 1000 (AList.update ''Hairline'' 1 (AList.delete [] known))"

text \<open>
  \<^verbatim>\<open>sorted(WEIGHT_NAMES, key=lambda k: len(k), reverse=True)\<close>: the keys by descending
  length. Python's sort is stable, also under \<^verbatim>\<open>reverse=True\<close>, and so is \<open>sort_key\<close>.
\<close>

definition sorted_weight_names :: "(string \<times> int) list \<Rightarrow> string list" where
  "sorted_weight_names known =
     sort_key (\<lambda>k. - int (length k)) (map fst (WEIGHT_NAMES known))"

text \<open>\<^verbatim>\<open>int(v)\<close> on a float truncates towards zero.\<close>

definition py_int :: "real \<Rightarrow> int" where
  "py_int v = (if 0 \<le> v then \<lfloor>v\<rfloor> else \<lceil>v\<rceil>)"

text \<open>
  \<^verbatim>\<open>{a.axisTag: a.defaultValue for a in fvar.axes}.get('wght', None)\<close>: in a dict
  comprehension a later axis with the same tag overwrites an earlier one.
\<close>

definition default_axis_value :: "axis list \<Rightarrow> string \<Rightarrow> real option" where
  "default_axis_value axes tag = map_of (rev (map (\<lambda>a. (axisTag a, defaultValue a)) axes)) tag"

text \<open>
  \<^verbatim>\<open>ttFont["OS/2"].usWeightClass = w; return ttFont["OS/2"].usWeightClass != old_weight_class\<close>
\<close>

definition store_weight_class :: "font \<Rightarrow> os2_table \<Rightarrow> int \<Rightarrow> bool \<times> font" where
  "store_weight_class ttFont os2 w =
     (let os2' = os2\<lparr>usWeightClass := w\<rparr>
      in (usWeightClass os2' \<noteq> usWeightClass os2, set_table ''OS/2'' (OS2 os2') ttFont))"

text \<open>Lines 210--225 of \<^verbatim>\<open>fix_weight_class\<close>: the weight class from the style name.\<close>

definition weight_class_from_stylename ::
  "(string \<times> int) list \<Rightarrow> font \<Rightarrow> os2_table \<Rightarrow> error + (bool \<times> font)" where
  "weight_class_from_stylename known ttFont os2 =
     (let stylename = font_stylename ttFont;
          tokens = str_split stylename
      in case find (\<lambda>style. style \<in> set tokens) (sorted_weight_names known) of
           Some style \<Rightarrow>
             (case map_of (WEIGHT_NAMES known) style of
                Some w \<Rightarrow> Inr (store_weight_class ttFont os2 w)
              | None \<Rightarrow> Inl KeyError)
         | None \<Rightarrow>
             if ''Italic'' \<in> set tokens then Inr (store_weight_class ttFont os2 400)
             else Inl ValueError)"

definition fix_weight_class :: "(string \<times> int) list \<Rightarrow> font \<Rightarrow> error + (bool \<times> font)" where
  "fix_weight_class known ttFont =
     (case get_OS2 ttFont of
        Inl e \<Rightarrow> Inl e
      | Inr os2 \<Rightarrow>
          (case tables ttFont ''fvar'' of
             None \<Rightarrow> weight_class_from_stylename known ttFont os2
           | Some (Fvar axes) \<Rightarrow>
               (case default_axis_value axes ''wght'' of
                  Some v \<Rightarrow> Inr (store_weight_class ttFont os2 (py_int v))
                | None \<Rightarrow> weight_class_from_stylename known ttFont os2)
           | Some _ \<Rightarrow> Inl KeyError))"

definition fix_fs_type :: "font \<Rightarrow> error + (bool \<times> font)" where
  "fix_fs_type ttFont =
     (case get_OS2 ttFont of
        Inl e \<Rightarrow> Inl e
      | Inr os2 \<Rightarrow>
          (let old = fsType os2
           in Inr (old \<noteq> 0, set_table ''OS/2'' (OS2 (os2\<lparr>fsType := 0\<rparr>)) ttFont)))"

text \<open>
  \<^verbatim>\<open>fix_fs_selection\<close>: \<^verbatim>\<open>1 << n\<close> is \<open>push_bit n 1\<close>, \<^verbatim>\<open>&\<close> and \<^verbatim>\<open>|\<close> on Python's
  unbounded integers are \<open>AND\<close> and \<open>OR\<close> on \<open>int\<close>.
\<close>

definition fix_fs_selection :: "font \<Rightarrow> error + (bool \<times> font)" where
  "fix_fs_selection ttFont =
     (let stylename = font_stylename ttFont;
          tokens = set (str_split stylename)
      in case get_OS2 ttFont of
           Inl e \<Rightarrow> Inl e
         | Inr os2 \<Rightarrow>
             (let old_selection = fsSelection os2;
                  fs_selection = old_selection AND push_bit 7 1;
                  fs_selection =
                    (if ''Italic'' \<in> tokens then fs_selection OR push_bit 0 1 else fs_selection);
                  fs_selection =
                    (if ''Bold'' \<in> tokens then fs_selection OR push_bit 5 1 else fs_selection);
                  fs_selection =
                    (if tokens \<inter> {''Bold'', ''Italic''} = {} then fs_selection OR push_bit 6 1
                     else fs_selection)
              in Inr (old_selection \<noteq> fs_selection,
                      set_table ''OS/2'' (OS2 (os2\<lparr>fsSelection := fs_selection\<rparr>)) ttFont)))"

definition fix_mac_style :: "font \<Rightarrow> error + (bool \<times> font)" where
  "fix_mac_style ttFont =
     (case get_head ttFont of
        Inl e \<Rightarrow> Inl e
      | Inr head \<Rightarrow>
          (let old_mac_style = macStyle head;
               stylename = font_stylename ttFont;
               tokens = set (str_split stylename);
               mac_style = 0;
               mac_style = (if ''Italic'' \<in> tokens then mac_style OR push_bit 1 1 else mac_style);
               mac_style = (if ''Bold'' \<in> tokens then mac_style OR push_bit 0 1 else mac_style)
           in Inr (old_mac_style \<noteq> mac_style,
                   set_table ''head'' (Head (head\<lparr>macStyle := mac_style\<rparr>)) ttFont)))"

text \<open>
  \<^verbatim>\<open>fix_italic_angle\<close>: \<^verbatim>\<open>"Italic" not in style_name\<close> is a substring test on the style
  name itself, not on its tokens; \<open>sublist\<close> is the contiguous-sublist relation.
\<close>

definition fix_italic_angle :: "font \<Rightarrow> error + (bool \<times> font)" where
  "fix_italic_angle ttFont =
     (let style_name = font_stylename ttFont
      in if \<not> sublist ''Italic'' style_name then
           (case get_post ttFont of
              Inl e \<Rightarrow> Inl e
            | Inr post \<Rightarrow>
                if italicAngle post \<noteq> 0
                then Inr (True, set_table ''post'' (Post (post\<lparr>italicAngle := 0\<rparr>)) ttFont)
                else Inr (False, ttFont))
         else Inr (False, ttFont))"

section \<open>Fixed-pitch detection\<close>

text \<open>Decimal printing for the \<^verbatim>\<open>%i\<close> and \<^verbatim>\<open>{}\<close> fields of the messages.\<close>

function str_of_nat :: "nat \<Rightarrow> string" where
  "str_of_nat n =
     (if n < 10 then [char_of (48 + n)] else str_of_nat (n div 10) @ [char_of (48 + n mod 10)])"
  by pat_completeness auto
termination
  by (relation "measure id") auto

declare str_of_nat.simps [simp del]

definition str_of_int :: "int \<Rightarrow> string" where
  "str_of_int i = (if i < 0 then CHR ''-'' # str_of_nat (nat (- i)) else str_of_nat (nat i))"

text \<open>\<^verbatim>\<open>[chr(c) for c in range(65, 91)]\<close>: the glyph names \<^verbatim>\<open>A\<close> to \<^verbatim>\<open>Z\<close>.\<close>

definition uppercase_glyphs :: "string list" where
  "uppercase_glyphs = map (\<lambda>c. [char_of c]) [65..<91]"

text \<open>
  The first loop: \<^verbatim>\<open>glyph_metrics[character][0]\<close> for each letter, a \<^verbatim>\<open>KeyError\<close> at the
  first glyph name that \<^verbatim>\<open>hmtx.metrics\<close> lacks.
\<close>

fun sample_widths :: "(string \<times> int \<times> int) list \<Rightarrow> string list \<Rightarrow> error + int list" where
  "sample_widths glyph_metrics [] = Inr []"
| "sample_widths glyph_metrics (character # rest) =
     (case map_of glyph_metrics character of
        None \<Rightarrow> Inl KeyError
      | Some m \<Rightarrow>
          (case sample_widths glyph_metrics rest of
             Inl e \<Rightarrow> Inl e
           | Inr ws \<Rightarrow> Inr (fst m # ws)))"

text \<open>\<^verbatim>\<open>max(widths)\<close> on a non-empty list; the empty list raises before this is used.\<close>

fun py_max :: "int list \<Rightarrow> int" where
  "py_max [] = 0"
| "py_max (w # ws) = fold max ws w"

text \<open>
  fontTools' \<^verbatim>\<open>otRound(v) = int(math.floor(v + 0.5))\<close>, applied to the true quotient
  \<^verbatim>\<open>sum(widths) / len(widths)\<close>. The quotient is exact here; Python rounds it to a double,
  which gives the same \<open>floor\<close> for advance widths (16-bit values, at most 65535 glyphs).
\<close>

definition otRound :: "real \<Rightarrow> int" where
  "otRound v = \<lfloor>v + 1 / 2\<rfloor>"

text \<open>
  The branch \<^verbatim>\<open>len(same_width) == 1\<close>, statement by statement. \<^verbatim>\<open>expected\<close> is
  \<^verbatim>\<open>None\<close> or a non-zero number, so \<^verbatim>\<open>if expected:\<close> tests for \<open>Some\<close>. Line 542 calls
  \<^verbatim>\<open>messsages.append\<close>, a name that is bound nowhere: reaching it raises \<^verbatim>\<open>NameError\<close>
  before \<^verbatim>\<open>hhea.advanceWidthMax\<close> is assigned.
\<close>

definition fixed_pitch_monospace ::
  "font \<Rightarrow> (string \<times> int \<times> int) list \<Rightarrow> error + ((bool \<times> string list) \<times> font)" where
  "fixed_pitch_monospace ttfont glyph_metrics =
     (case get_post ttfont of
        Inl e \<Rightarrow> Inl e
      | Inr post \<Rightarrow>
     (let (post, changed, messages) =
            (if isFixedPitch post = 1
             then (post, False, [''Skipping isFixedPitch is set correctly''])
             else (post\<lparr>isFixedPitch := 1\<rparr>, True,
                   [''Font is monospace. Updating isFixedPitch to 0'']))
      in case get_OS2 ttfont of
        Inl e \<Rightarrow> Inl e
      | Inr os2 \<Rightarrow>
     (let familyType = bFamilyType (panose os2);
          (os2, changed, messages, expected) =
            (if familyType = 2 then (os2, changed, messages, Some 9)
             else if familyType = 3 \<or> familyType = 5 then (os2, changed, messages, Some 3)
             else if familyType = 0 then
               (os2\<lparr>panose := (panose os2)\<lparr>bFamilyType := 2, bProportion := 9\<rparr>\<rparr>, True,
                messages @
                  [''Font is monospace but panose fields seems to be not set.'' @
                   '' Setting values to defaults (FamilyType = 2, Proportion = 9).''],
                None)
             else (os2, changed, messages, None));
          (os2, changed, messages) =
            (case expected of
               None \<Rightarrow> (os2, changed, messages)
             | Some expected \<Rightarrow>
                 if bProportion (panose os2) = expected
                 then (os2, changed,
                       messages @ [''Skipping OS/2.panose.bProportion is set correctly''])
                 else (os2\<lparr>panose := (panose os2)\<lparr>bProportion := expected\<rparr>\<rparr>, True,
                       messages @
                         [''Font is monospace. Since OS/2.panose.bFamilyType is '' @
                          str_of_int familyType @
                          '' we're updating OS/2.panose.bProportion to '' @
                          str_of_int expected]));
          widths = filter (\<lambda>w. w > 0) (map (\<lambda>m. fst m) (map snd glyph_metrics))
      in if widths = [] then Inl ValueError
         else
     (let width_max = py_max widths
      in case get_hhea ttfont of
        Inl e \<Rightarrow> Inl e
      | Inr hhea \<Rightarrow>
          if advanceWidthMax hhea = width_max then
            (let messages = messages @ [''Skipping hhea.advanceWidthMax is set correctly''];
                 avg_width = otRound (real_of_int (sum_list widths) / real (length widths));
                 (os2, changed, messages) =
                   (if avg_width = xAvgCharWidth os2
                    then (os2, changed,
                          messages @ [''Skipping OS/2.xAvgCharWidth is set correctly''])
                    else (os2\<lparr>xAvgCharWidth := avg_width\<rparr>, True,
                          messages @
                            [''Font is monospace. Updating OS/2.xAvgCharWidth to '' @
                             str_of_int avg_width]))
             in Inr ((changed, messages),
                     set_table ''OS/2'' (OS2 os2) (set_table ''post'' (Post post) ttfont)))
          else Inl NameError))))"

text \<open>The \<^verbatim>\<open>else\<close> branch: the sampled widths differ.\<close>

definition fixed_pitch_proportional :: "font \<Rightarrow> error + ((bool \<times> string list) \<times> font)" where
  "fixed_pitch_proportional ttfont =
     (case get_post ttfont of
        Inl e \<Rightarrow> Inl e
      | Inr post \<Rightarrow>
          (case get_OS2 ttfont of
             Inl e \<Rightarrow> Inl e
           | Inr os2 \<Rightarrow>
               (let changed = (isFixedPitch post \<noteq> 0 \<or> bProportion (panose os2) \<noteq> 0)
                in Inr ((changed, []),
                        set_table ''OS/2'' (OS2 (os2\<lparr>panose := (panose os2)\<lparr>bProportion := 0\<rparr>\<rparr>))
                          (set_table ''post'' (Post (post\<lparr>isFixedPitch := 0\<rparr>)) ttfont)))))"

text \<open>\<^verbatim>\<open>len(same_width) == 1\<close> on the set of the sampled widths.\<close>

definition fix_isFixedPitch :: "font \<Rightarrow> error + ((bool \<times> string list) \<times> font)" where
  "fix_isFixedPitch ttfont =
     (case get_hmtx ttfont of
        Inl e \<Rightarrow> Inl e
      | Inr glyph_metrics \<Rightarrow>
          (case sample_widths glyph_metrics uppercase_glyphs of
             Inl e \<Rightarrow> Inl e
           | Inr same_width \<Rightarrow>
               if length (remdups same_width) = 1 then fixed_pitch_monospace ttfont glyph_metrics
               else fixed_pitch_proportional ttfont))"

section \<open>Name-record pruning\<close>

text \<open>
  fontTools' \<^verbatim>\<open>name.getName(nameID, platformID, platEncID, langID)\<close> returns the first
  record of \<^verbatim>\<open>names\<close> with these four identifiers, or \<^verbatim>\<open>None\<close>. A record is an object
  and always true, so \<^verbatim>\<open>if name:\<close> tests for a found record. \<^verbatim>\<open>names.remove(name)\<close>
  deletes the first element equal to the found record, which is the found record.
\<close>

definition getName :: "name_record list \<Rightarrow> int \<Rightarrow> int \<Rightarrow> int \<Rightarrow> int \<Rightarrow> name_record option" where
  "getName names n p e l =
     find (\<lambda>r. nameID r = n \<and> platformID r = p \<and> platEncID r = e \<and> langID r = l) names"

text \<open>
  The loop \<^verbatim>\<open>for n in range(255)\<close> of both functions, over the pair of \<^verbatim>\<open>changed\<close> and
  the list \<^verbatim>\<open>names\<close>; \<open>keep\<close> is \<^verbatim>\<open>n in keep_ids\<close> (never true in \<^verbatim>\<open>drop_mac_names\<close>).
\<close>

fun drop_names_loop ::
  "(int \<Rightarrow> bool) \<Rightarrow> int list \<Rightarrow> bool \<times> name_record list \<Rightarrow> bool \<times> name_record list" where
  "drop_names_loop keep [] st = st"
| "drop_names_loop keep (n # ns) (changed, names) =
     (if keep n then drop_names_loop keep ns (changed, names)
      else (case getName names n 1 0 0 of
              None \<Rightarrow> drop_names_loop keep ns (changed, names)
            | Some name \<Rightarrow> drop_names_loop keep ns (True, remove1 name names)))"

definition range255 :: "int list" where
  "range255 = map int [0..<255]"

definition keep_ids :: "int list" where
  "keep_ids = [1, 2, 3, 4, 5, 6, 16, 17, 18, 20, 21, 22, 25]"

definition drop_superfluous_mac_names :: "font \<Rightarrow> error + (bool \<times> font)" where
  "drop_superfluous_mac_names ttfont =
     (case get_name ttfont of
        Inl e \<Rightarrow> Inl e
      | Inr names \<Rightarrow>
          (let (changed, names) = drop_names_loop (\<lambda>n. n \<in> set keep_ids) range255 (False, names)
           in Inr (changed, set_table ''name'' (Name names) ttfont)))"

definition drop_mac_names :: "font \<Rightarrow> error + (bool \<times> font)" where
  "drop_mac_names ttfont =
     (case get_name ttfont of
        Inl e \<Rightarrow> Inl e
      | Inr names \<Rightarrow>
          (let (changed, names) = drop_names_loop (\<lambda>n. False) range255 (False, names)
           in Inr (changed, set_table ''name'' (Name names) ttfont)))"

section \<open>Vertical metrics of a family\<close>

text \<open>
  Modelled from the spec: \<^verbatim>\<open>typo_metrics_enabled\<close> of \<^verbatim>\<open>gftools.utils\<close> is missing from the
  sources; the spec reads it as ``selection bit 7'' of the font being set.
\<close>

definition typo_metrics_enabled :: "font \<Rightarrow> error + bool" where
  "typo_metrics_enabled f =
     (case get_OS2 f of Inl e \<Rightarrow> Inl e | Inr os2 \<Rightarrow> Inr (bit (fsSelection os2) 7))"

text \<open>
  Modelled from the spec: \<^verbatim>\<open>family_bounding_box\<close> of \<^verbatim>\<open>gftools.utils\<close> is missing from the
  sources; the spec has it compute ``min/max glyph extents across every font in the
  family''. A font's glyph extents are \<^verbatim>\<open>head.yMin\<close> and \<^verbatim>\<open>head.yMax\<close>; the result is the
  pair (minimum, maximum), in the order the caller unpacks it.
\<close>

fun family_extents :: "font list \<Rightarrow> error + (int \<times> int) list" where
  "family_extents [] = Inr []"
| "family_extents (f # fs) =
     (case get_head f of
        Inl e \<Rightarrow> Inl e
      | Inr head \<Rightarrow>
          (case family_extents fs of
             Inl e \<Rightarrow> Inl e
           | Inr es \<Rightarrow> Inr ((yMin head, yMax head) # es)))"

definition family_bounding_box :: "font list \<Rightarrow> error + (int \<times> int)" where
  "family_bounding_box ttFonts =
     (case family_extents ttFonts of
        Inl e \<Rightarrow> Inl e
      | Inr [] \<Rightarrow> Inl ValueError
      | Inr (e # es) \<Rightarrow> Inr (fold min (map fst es) (fst e), fold max (map snd es) (snd e)))"

text \<open>
  \<^verbatim>\<open>copy_vertical_metrics\<close>: the eight \<^verbatim>\<open>getattr\<close>/\<^verbatim>\<open>setattr\<close> pairs, the five of
  \<^verbatim>\<open>OS/2\<close> before the three of \<^verbatim>\<open>hhea\<close>.
\<close>

definition copy_vertical_metrics :: "font \<Rightarrow> font \<Rightarrow> error + font" where
  "copy_vertical_metrics src_font dst_font =
     (case get_OS2 src_font of
        Inl e \<Rightarrow> Inl e
      | Inr s_os2 \<Rightarrow>
     (case get_OS2 dst_font of
        Inl e \<Rightarrow> Inl e
      | Inr d_os2 \<Rightarrow>
     (case get_hhea src_font of
        Inl e \<Rightarrow> Inl e
      | Inr s_hhea \<Rightarrow>
     (case get_hhea dst_font of
        Inl e \<Rightarrow> Inl e
      | Inr d_hhea \<Rightarrow>
          Inr (set_table ''hhea''
                 (Hhea (d_hhea\<lparr>ascent := ascent s_hhea,
                               descent := descent s_hhea,
                               lineGap := lineGap s_hhea\<rparr>))
                 (set_table ''OS/2''
                    (OS2 (d_os2\<lparr>usWinAscent := usWinAscent s_os2,
                                usWinDescent := usWinDescent s_os2,
                                sTypoAscender := sTypoAscender s_os2,
                                sTypoDescender := sTypoDescender s_os2,
                                sTypoLineGap := sTypoLineGap s_os2\<rparr>))
                    dst_font))))))"

text \<open>
  \<^verbatim>\<open>next((f for f in ttFonts if font_stylename(f) == "Regular"), ttFonts[0])\<close>: the index
  of the chosen font in the list. The default \<^verbatim>\<open>ttFonts[0]\<close> is evaluated first, so an
  empty family raises \<^verbatim>\<open>IndexError\<close>.
\<close>

fun first_regular :: "font list \<Rightarrow> nat option" where
  "first_regular [] = None"
| "first_regular (f # fs) =
     (if font_stylename f = ''Regular'' then Some 0 else map_option Suc (first_regular fs))"

definition src_index :: "font list \<Rightarrow> nat" where
  "src_index ttFonts = (case first_regular ttFonts of Some i \<Rightarrow> i | None \<Rightarrow> 0)"

text \<open>
  The last loop of \<^verbatim>\<open>fix_vertical_metrics\<close>. \<^verbatim>\<open>src_font\<close> is itself a member of the list;
  when the loop reaches it, bit 7 is already set and it copies its own values onto itself,
  so the font the loop reads from is the same at every iteration.
\<close>

fun harmonize_all :: "font \<Rightarrow> font list \<Rightarrow> error + font list" where
  "harmonize_all src_font [] = Inr []"
| "harmonize_all src_font (ttFont # rest) =
     (case get_OS2 ttFont of
        Inl e \<Rightarrow> Inl e
      | Inr os2 \<Rightarrow>
          (case copy_vertical_metrics src_font
                  (set_table ''OS/2''
                     (OS2 (os2\<lparr>fsSelection := fsSelection os2 OR push_bit 7 1\<rparr>)) ttFont) of
             Inl e \<Rightarrow> Inl e
           | Inr ttFont' \<Rightarrow>
               (case harmonize_all src_font rest of
                  Inl e \<Rightarrow> Inl e
                | Inr rest' \<Rightarrow> Inr (ttFont' # rest'))))"

text \<open>
  \<^verbatim>\<open>fix_vertical_metrics\<close>. The source mutates \<^verbatim>\<open>src_font\<close> in place, that is, inside the
  list: \<open>ttFonts[i := _]\<close> at its index.
\<close>

definition fix_vertical_metrics :: "font list \<Rightarrow> error + font list" where
  "fix_vertical_metrics ttFonts =
     (if ttFonts = [] then Inl IndexError
      else
     (let i = src_index ttFonts;
          src_font = ttFonts ! i
      in case typo_metrics_enabled src_font of
        Inl e \<Rightarrow> Inl e
      | Inr enabled \<Rightarrow>
     (case get_OS2 src_font of
        Inl e \<Rightarrow> Inl e
      | Inr os2 \<Rightarrow>
     (let os2 =
            (if \<not> enabled
             then os2\<lparr>fsSelection := fsSelection os2 OR push_bit 7 1,
                      sTypoAscender := usWinAscent os2,
                      sTypoDescender := - usWinDescent os2,
                      sTypoLineGap := 0\<rparr>
             else os2)
      in case get_hhea src_font of
        Inl e \<Rightarrow> Inl e
      | Inr hhea \<Rightarrow>
     (let hhea = hhea\<lparr>ascent := sTypoAscender os2,
                      descent := sTypoDescender os2,
                      lineGap := sTypoLineGap os2\<rparr>;
          src_font = set_table ''hhea'' (Hhea hhea) (set_table ''OS/2'' (OS2 os2) src_font);
          ttFonts = ttFonts[i := src_font]
      in case family_bounding_box ttFonts of
        Inl e \<Rightarrow> Inl e
      | Inr (win_desc, win_asc) \<Rightarrow>
     (let os2 = os2\<lparr>usWinAscent := win_asc, usWinDescent := \<bar>win_desc\<bar>\<rparr>;
          src_font = set_table ''OS/2'' (OS2 os2) src_font;
          ttFonts = ttFonts[i := src_font]
      in harmonize_all src_font ttFonts))))))"

section \<open>Private-use-area remapping\<close>

definition get_cmap :: "font \<Rightarrow> error + cmap_subtable list" where
  "get_cmap f = (case tables f ''cmap'' of Some (Cmap t) \<Rightarrow> Inr t | _ \<Rightarrow> Inl KeyError)"

text \<open>
  fontTools' \<^verbatim>\<open>cmap.getcmap(platformID, platEncID)\<close>: the first subtable with these two
  identifiers, or \<^verbatim>\<open>None\<close>. A subtable is an object and always true.
\<close>

definition getcmap :: "cmap_subtable list \<Rightarrow> int \<Rightarrow> int \<Rightarrow> cmap_subtable option" where
  "getcmap tbls p e = find (\<lambda>t. cmap_platformID t = p \<and> cmap_platEncID t = e) tbls"

text \<open>
  Modelled from the spec: \<^verbatim>\<open>get_unencoded_glyphs\<close> of \<^verbatim>\<open>gftools.utils\<close> is missing from the
  sources; the spec has the rule find the ``currently-unencoded glyphs'', computed ``from
  the cmap''. A glyph of the glyph order is unencoded when no subtable of the cmap maps a
  code point to it.
\<close>

definition encoded_glyphs :: "cmap_subtable list \<Rightarrow> string list" where
  "encoded_glyphs tbls =
     concat (map (\<lambda>t. case cmap t of None \<Rightarrow> [] | Some m \<Rightarrow> map snd m) tbls)"

definition get_unencoded_glyphs :: "font \<Rightarrow> error + string list" where
  "get_unencoded_glyphs f =
     (case get_cmap f of
        Inl e \<Rightarrow> Inl e
      | Inr tbls \<Rightarrow> Inr (filter (\<lambda>g. g \<notin> set (encoded_glyphs tbls)) (glyphOrder f)))"

text \<open>
  The loop \<^verbatim>\<open>for ucs2cmapid in ((3, 1), (0, 3), (3, 0))\<close>: the first subtable found, or
  the result of the last lookup.
\<close>

definition find_ucs2cmap :: "cmap_subtable list \<Rightarrow> cmap_subtable option" where
  "find_ucs2cmap tbls =
     (case getcmap tbls 3 1 of
        Some t \<Rightarrow> Some t
      | None \<Rightarrow> (case getcmap tbls 0 3 of Some t \<Rightarrow> Some t | None \<Rightarrow> getcmap tbls 3 0))"

text \<open>
  \<^verbatim>\<open>for glyphID, glyph in enumerate(font.getGlyphOrder())\<close>, on the dict of the UCS-4
  subtable: \<^verbatim>\<open>ucs4cmap.cmap[0xF0000 + glyphID] = glyph\<close> for every unencoded glyph.
\<close>

fun pua_loop ::
  "string list \<Rightarrow> int \<Rightarrow> string list \<Rightarrow> (int \<times> string) list option
     \<Rightarrow> error + (int \<times> string) list option" where
  "pua_loop unencoded_glyphs glyphID [] m = Inr m"
| "pua_loop unencoded_glyphs glyphID (glyph # rest) m =
     (if glyph \<in> set unencoded_glyphs then
        (case m of
           None \<Rightarrow> Inl AttributeError
         | Some d \<Rightarrow>
             pua_loop unencoded_glyphs (glyphID + 1) rest
               (Some (AList.update (0xF0000 + glyphID) glyph d)))
      else pua_loop unencoded_glyphs (glyphID + 1) rest m)"

text \<open>The object that \<^verbatim>\<open>getcmap\<close> returned is changed in place, where it stands in the list.\<close>

fun update_first :: "('a \<Rightarrow> bool) \<Rightarrow> ('a \<Rightarrow> 'a) \<Rightarrow> 'a list \<Rightarrow> 'a list" where
  "update_first P g [] = []"
| "update_first P g (x # xs) = (if P x then g x # xs else x # update_first P g xs)"

text \<open>
  The value a rule hands back to \<^verbatim>\<open>FontFixer.fix\<close>: a tuple of length two whose first
  component is true or false, or any other value, of which only its truth matters
  (\<^verbatim>\<open>None\<close> and \<^verbatim>\<open>False\<close> are false).
\<close>

datatype rv = RTuple bool "string list" | RValue bool

text \<open>
  \<^verbatim>\<open>fix_pua\<close> returns \<^verbatim>\<open>None\<close> when there is nothing to do and \<^verbatim>\<open>True\<close> otherwise. Each
  subtable owns its dict (\<^verbatim>\<open>deepcopy\<close> for the new one).
\<close>

definition fix_pua :: "font \<Rightarrow> error + (rv \<times> font)" where
  "fix_pua font =
     (case get_unencoded_glyphs font of
        Inl e \<Rightarrow> Inl e
      | Inr unencoded_glyphs \<Rightarrow>
          if unencoded_glyphs = [] then Inr (RValue False, font)
          else
     (case get_cmap font of
        Inl e \<Rightarrow> Inl e
      | Inr tbls \<Rightarrow>
     (let ucs2cmap = find_ucs2cmap tbls;
          ucs4cmap = getcmap tbls 3 10
      in case (case ucs4cmap of
                 Some t \<Rightarrow> Inr tbls
               | None \<Rightarrow>
                   (let ucs4cmap = \<lparr>cmap_platformID = 3, cmap_platEncID = 10,
                                    cmap_language = 0, cmap_format = 12, cmap = None\<rparr>
                    in case ucs2cmap of
                         None \<Rightarrow> Inr (tbls @ [ucs4cmap])
                       | Some u \<Rightarrow>
                           (case cmap u of
                              None \<Rightarrow> Inl AttributeError
                            | Some d \<Rightarrow> Inr (tbls @ [ucs4cmap\<lparr>cmap := Some d\<rparr>])))) of
        Inl e \<Rightarrow> Inl e
      | Inr tbls \<Rightarrow>
     (case getcmap tbls 3 10 of
        None \<Rightarrow> Inl AttributeError
      | Some ucs4cmap \<Rightarrow>
     (case pua_loop unencoded_glyphs 0 (glyphOrder font) (cmap ucs4cmap) of
        Inl e \<Rightarrow> Inl e
      | Inr d \<Rightarrow>
          Inr (RValue True,
               set_table ''cmap''
                 (Cmap (update_first (\<lambda>t. cmap_platformID t = 3 \<and> cmap_platEncID t = 10)
                          (\<lambda>t. t\<lparr>cmap := d\<rparr>) tbls))
                 font))))))"

section \<open>COLR repair\<close>

text \<open>
  What the source calls outside itself: nanoemoji's \<^verbatim>\<open>load_fully\<close> and
  \<^verbatim>\<open>reorder_glyphs\<close>, and the \<^verbatim>\<open>maximum_color\<close> subprocess followed by loading its output
  file (\<^verbatim>\<open>subprocess.run(..., check=True)\<close> raises when the tool fails).
\<close>

record external_tools =
  load_fully :: "font \<Rightarrow> font"
  reorder_glyphs :: "font \<Rightarrow> string list \<Rightarrow> font"
  maximum_color :: "font \<Rightarrow> error + font"

text \<open>\<^verbatim>\<open>new_order.insert(1, g)\<close>.\<close>

definition insert_at_1 :: "'a \<Rightarrow> 'a list \<Rightarrow> 'a list" where
  "insert_at_1 g xs = take 1 xs @ [g] @ drop 1 xs"

text \<open>
  \<^verbatim>\<open>any(glyf_table[g].numberOfContours == 0 for g in glyph_names)\<close> and
  \<^verbatim>\<open>next((g for g in glyph_order if glyf_table[g].numberOfContours == 0), None)\<close>: both stop
  at the first empty glyph and raise \<^verbatim>\<open>KeyError\<close> at a glyph name met before it that the
  glyf table lacks.
\<close>

fun first_empty_glyph :: "(string \<times> int) list \<Rightarrow> string list \<Rightarrow> error + string option" where
  "first_empty_glyph glyf_table [] = Inr None"
| "first_empty_glyph glyf_table (g # gs) =
     (case map_of glyf_table g of
        None \<Rightarrow> Inl KeyError
      | Some numberOfContours \<Rightarrow>
          if numberOfContours = 0 then Inr (Some g) else first_empty_glyph glyf_table gs)"

definition swap_empty_glyph_to_gid1 :: "external_tools \<Rightarrow> font \<Rightarrow> error + font" where
  "swap_empty_glyph_to_gid1 ext ttfont =
     (case tables ttfont ''glyf'' of
        Some (Glyf glyf_table) \<Rightarrow>
          (let ttfont = load_fully ext ttfont;
               glyph_order = glyphOrder ttfont
           in case first_empty_glyph glyf_table glyph_order of
                Inl e \<Rightarrow> Inl e
              | Inr None \<Rightarrow> Inl ValueError
              | Inr (Some empty_glyph) \<Rightarrow>
                  (let new_order = remove1 empty_glyph glyph_order;
                       new_order = insert_at_1 empty_glyph new_order
                   in Inr (reorder_glyphs ext ttfont new_order)))
      | _ \<Rightarrow> Inl KeyError)"

text \<open>\<^verbatim>\<open>NO_VARIATION_INDEX\<close> of fontTools is \<^verbatim>\<open>0xFFFFFFFF\<close>; a new \<^verbatim>\<open>Glyph()\<close> has no contours.\<close>

definition NO_VARIATION_INDEX :: int where
  "NO_VARIATION_INDEX = 0xFFFFFFFF"

definition add_empty_glyph_to_gid1 :: "external_tools \<Rightarrow> font \<Rightarrow> error + font" where
  "add_empty_glyph_to_gid1 ext ttfont =
     (let ttfont = load_fully ext ttfont;
          glyph_order = glyphOrder ttfont
      in case tables ttfont ''glyf'' of
           Some (Glyf glyf_table) \<Rightarrow>
             (case get_hmtx ttfont of
                Inl e \<Rightarrow> Inl e
              | Inr hmtx \<Rightarrow>
                  (let empty_name =
                         (if ''.null'' \<notin> set glyph_order then ''.null'' else ''emptyglyph'')
                   in if empty_name \<in> set glyph_order then Inl AssertionError
                      else
                        (let ttfont =
                               set_table ''glyf'' (Glyf (AList.update empty_name 0 glyf_table))
                                 ttfont;
                             ttfont =
                               set_table ''hmtx'' (Hmtx (AList.update empty_name (0, 0) hmtx))
                                 ttfont
                         in case tables ttfont ''HVAR'' of
                              None \<Rightarrow> Inr (ttfont\<lparr>glyphOrder := insert_at_1 empty_name glyph_order\<rparr>)
                            | Some (HVAR hvar) \<Rightarrow>
                                (let hvar =
                                       hvar\<lparr>AdvWidthMap :=
                                               map_option (AList.update empty_name NO_VARIATION_INDEX)
                                                 (AdvWidthMap hvar)\<rparr>;
                                     hvar =
                                       hvar\<lparr>LsbMap :=
                                               map_option (AList.update empty_name NO_VARIATION_INDEX)
                                                 (LsbMap hvar)\<rparr>;
                                     hvar =
                                       hvar\<lparr>RsbMap :=
                                               map_option (AList.update empty_name NO_VARIATION_INDEX)
                                                 (RsbMap hvar)\<rparr>
                                 in Inr ((set_table ''HVAR'' (HVAR hvar) ttfont)
                                           \<lparr>glyphOrder := insert_at_1 empty_name glyph_order\<rparr>))
                            | Some _ \<Rightarrow> Inl AttributeError)))
         | _ \<Rightarrow> Inl KeyError)"

definition fix_colr_v0_gid1 :: "external_tools \<Rightarrow> font \<Rightarrow> error + font" where
  "fix_colr_v0_gid1 ext ttfont =
     (if tables ttfont ''COLR'' \<noteq> Some (COLR 0) then Inl AssertionError
      else
     (case tables ttfont ''maxp'' of
        Some (Maxp numGlyphs) \<Rightarrow>
          if numGlyphs < 2 then Inr ttfont
          else
            (let glyph_names = glyphOrder ttfont
             in case tables ttfont ''glyf'' of
                  Some (Glyf glyf_table) \<Rightarrow>
                    if length glyph_names < 2 then Inl IndexError
                    else
                      (let second_glyph = glyph_names ! 1
                       in case map_of glyf_table second_glyph of
                            None \<Rightarrow> Inl KeyError
                          | Some numberOfContours \<Rightarrow>
                              if numberOfContours = 0 then Inr ttfont
                              else
                                (case first_empty_glyph glyf_table glyph_names of
                                   Inl e \<Rightarrow> Inl e
                                 | Inr has_empty_glyphs \<Rightarrow>
                                     if has_empty_glyphs \<noteq> None
                                     then swap_empty_glyph_to_gid1 ext ttfont
                                     else add_empty_glyph_to_gid1 ext ttfont))
                | _ \<Rightarrow> Inl KeyError)
      | _ \<Rightarrow> Inl KeyError))"

definition fix_colr_v1_add_svg :: "external_tools \<Rightarrow> font \<Rightarrow> error + font" where
  "fix_colr_v1_add_svg ext ttfont =
     (if has_table ''SVG '' ttfont then Inr ttfont
      else
        (case maximum_color ext ttfont of
           Inl e \<Rightarrow> Inl e
         | Inr fixed_ttfont \<Rightarrow>
             if has_table ''SVG '' fixed_ttfont then Inr fixed_ttfont else Inl AssertionError))"

definition fix_colr_font :: "external_tools \<Rightarrow> font \<Rightarrow> error + font" where
  "fix_colr_font ext ttfont =
     (case tables ttfont ''COLR'' of
        None \<Rightarrow> Inl AssertionError
      | Some (COLR colr_version) \<Rightarrow>
          if colr_version = 0 then fix_colr_v0_gid1 ext ttfont
          else if colr_version = 1 then fix_colr_v1_add_svg ext ttfont
          else Inl NotImplementedError
      | Some _ \<Rightarrow> Inl AttributeError)"

section \<open>The FontFixer object\<close>

text \<open>
  A fix is any callable on the font. It may change the font in place and then returns a
  value or raises; the font after the call is part of the outcome either way.
\<close>

type_synonym fix_rule = "font \<Rightarrow> (error + rv) \<times> font"

text \<open>
  The attributes that \<^verbatim>\<open>__init__\<close> sets (\<^verbatim>\<open>self.args\<close>, which nothing reads, is left out).
  \<^verbatim>\<open>TTFont(path)\<close> decodes the file at \<^verbatim>\<open>path\<close>; the decoded font is an argument here.
\<close>

record FontFixer =
  font :: font
  path :: string
  font_filename :: string
  saveit :: bool
  report :: bool
  verbose :: bool
  messages :: "string list"
  "fixes" :: "fix_rule list"

text \<open>\<^verbatim>\<open>os.path.basename\<close>: what follows the last slash.\<close>

definition basename :: "string \<Rightarrow> string" where
  "basename p = rev (takeWhile (\<lambda>c. c \<noteq> CHR ''/'') (rev p))"

definition FontFixer_init ::
  "font \<Rightarrow> string \<Rightarrow> bool \<Rightarrow> bool \<Rightarrow> fix_rule list option \<Rightarrow> FontFixer" where
  "FontFixer_init ttfont p rep verb kw_fixes =
     \<lparr>font = ttfont, path = p, font_filename = basename p, saveit = False, report = rep,
      verbose = verb, messages = [],
      fixes = (case kw_fixes of None \<Rightarrow> [] | Some fs \<Rightarrow> fs)\<rparr>"

text \<open>
  \<^verbatim>\<open>FontFixer.fix\<close>: the loop over \<^verbatim>\<open>self.fixes\<close>. An exception of a fix leaves the loop;
  the object keeps what the earlier fixes did to it.
\<close>

fun fix_loop :: "fix_rule list \<Rightarrow> FontFixer \<Rightarrow> error option \<times> FontFixer" where
  "fix_loop [] self = (None, self)"
| "fix_loop (f # fs) self =
     (case f (font self) of
        (Inl e, ttfont) \<Rightarrow> (Some e, self\<lparr>font := ttfont\<rparr>)
      | (Inr r, ttfont) \<Rightarrow>
          (let self = self\<lparr>font := ttfont\<rparr>;
               (changed, self) =
                 (case r of
                    RTuple changed msgs \<Rightarrow> (changed, self\<lparr>messages := messages self @ msgs\<rparr>)
                  | RValue changed \<Rightarrow> (changed, self));
               self = (if changed then self\<lparr>saveit := True\<rparr> else self)
           in fix_loop fs self))"

definition FontFixer_fix :: "FontFixer \<Rightarrow> error option \<times> FontFixer" where
  "FontFixer_fix self = fix_loop (fixes self) self"

text \<open>
  What \<^verbatim>\<open>__del__\<close> does to the outside: the lines it prints and the files it writes
  (\<^verbatim>\<open>self.font.save(self.path + ".fix")\<close>), each file with the font written to it.
\<close>

record effects =
  printed :: "string list"
  saved :: "(string \<times> font) list"

fun join_lines :: "string list \<Rightarrow> string" where
  "join_lines [] = []"
| "join_lines [m] = m"
| "join_lines (m # ms) = m @ [CHR 0x0A] @ join_lines ms"

definition FontFixer_del :: "FontFixer \<Rightarrow> effects" where
  "FontFixer_del self =
     (let out = (if report self then [join_lines (messages self)] else [])
      in if saveit self then
           \<lparr>printed =
              out @ (if verbose self
                     then [''Saving '' @ font_filename self @ '' to '' @ path self @ ''.fix'']
                     else []),
            saved = [(path self @ ''.fix'', font self)]\<rparr>
         else if verbose self then
           \<lparr>printed = out @ [''There were no changes needed on '' @ font_filename self @ ''!''],
            saved = []\<rparr>
         else \<lparr>printed = out, saved = []\<rparr>)"

section \<open>The single-font rule set\<close>

text \<open>
  The rules that the idempotence requirement of the spec ranges over, each with the
  function of the source that implements it and the shape of the value it returns:
  \<^verbatim>\<open>remove_tables\<close> returns \<^verbatim>\<open>None\<close>, \<^verbatim>\<open>fix_isFixedPitch\<close> a tuple, \<^verbatim>\<open>fix_pua\<close> \<^verbatim>\<open>None\<close> or
  \<^verbatim>\<open>True\<close>, the others a \<^verbatim>\<open>bool\<close>.
\<close>

datatype rule_name =
    TablePruning "string list option"
  | EmbeddingPermission
  | SelectionFlags
  | MacStyleFlags
  | WeightClass
  | ItalicAngle
  | FixedPitch
  | NamePruningAll
  | NamePruningSuperfluous
  | PuaRemap

definition as_bool_rule :: "error + (bool \<times> font) \<Rightarrow> error + (rv \<times> font)" where
  "as_bool_rule r = (case r of Inl e \<Rightarrow> Inl e | Inr (changed, f) \<Rightarrow> Inr (RValue changed, f))"

definition apply_rule :: "(string \<times> int) list \<Rightarrow> rule_name \<Rightarrow> font \<Rightarrow> error + (rv \<times> font)" where
  "apply_rule known r f =
     (case r of
        TablePruning tbls \<Rightarrow> Inr (RValue False, remove_tables f tbls)
      | EmbeddingPermission \<Rightarrow> as_bool_rule (fix_fs_type f)
      | SelectionFlags \<Rightarrow> as_bool_rule (fix_fs_selection f)
      | MacStyleFlags \<Rightarrow> as_bool_rule (fix_mac_style f)
      | WeightClass \<Rightarrow> as_bool_rule (fix_weight_class known f)
      | ItalicAngle \<Rightarrow> as_bool_rule (fix_italic_angle f)
      | FixedPitch \<Rightarrow>
          (case fix_isFixedPitch f of
             Inl e \<Rightarrow> Inl e
           | Inr ((changed, msgs), f') \<Rightarrow> Inr (RTuple changed msgs, f'))
      | NamePruningAll \<Rightarrow> as_bool_rule (drop_mac_names f)
      | NamePruningSuperfluous \<Rightarrow> as_bool_rule (drop_superfluous_mac_names f)
      | PuaRemap \<Rightarrow> fix_pua f)"

fun rv_changed :: "rv \<Rightarrow> bool" where
  "rv_changed (RTuple changed msgs) = changed"
| "rv_changed (RValue changed) = changed"

section \<open>Vocabulary of the requirements, and example fonts\<close>

definition pruning_example :: font where
  "pruning_example =
     \<lparr>tables = [''head'' \<mapsto> Raw, ''FFTM'' \<mapsto> Raw, ''TTFA'' \<mapsto> Raw],
      glyphOrder = [], stylename = ''Regular''\<rparr>"

definition example_os2 :: os2_table where
  "example_os2 =
     \<lparr>version = 4, fsType = 8, usWeightClass = 400, fsSelection = 0xC0,
      panose = \<lparr>bFamilyType = 2, bProportion = 0\<rparr>, xAvgCharWidth = 500,
      usWinAscent = 1000, usWinDescent = 250,
      sTypoAscender = 800, sTypoDescender = - 200, sTypoLineGap = 100\<rparr>"

definition bold_italic_font :: font where
  "bold_italic_font =
     \<lparr>tables = [''OS/2'' \<mapsto> OS2 example_os2], glyphOrder = [], stylename = ''Bold Italic''\<rparr>"

text \<open>
  What a call of \<^verbatim>\<open>fix_weight_class\<close> that stores the weight class \<open>w\<close> is required to
  return: the flag is true iff \<open>w\<close> differs from the value stored before, and the font
  differs from the old one in \<^verbatim>\<open>OS/2.usWeightClass\<close> only.
\<close>

definition weight_class_result :: "font \<Rightarrow> os2_table \<Rightarrow> int \<Rightarrow> error + (bool \<times> font)" where
  "weight_class_result f os2 w =
     Inr (w \<noteq> usWeightClass os2, set_table ''OS/2'' (OS2 (os2\<lparr>usWeightClass := w\<rparr>)) f)"

text \<open>A table for \<^verbatim>\<open>_KNOWN_WEIGHTS\<close> with the weight names of the spec.\<close>

definition example_known_weights :: "(string \<times> int) list" where
  "example_known_weights =
     [([], 400), (''Thin'', 100), (''ExtraLight'', 200), (''Light'', 300), (''Regular'', 400),
      (''Medium'', 500), (''SemiBold'', 600), (''Bold'', 700), (''ExtraBold'', 800),
      (''Black'', 900)]"

definition black_font :: font where
  "black_font =
     \<lparr>tables = [''OS/2'' \<mapsto> OS2 example_os2], glyphOrder = [], stylename = ''Black''\<rparr>"

definition variable_font :: font where
  "variable_font =
     \<lparr>tables = [''OS/2'' \<mapsto> OS2 example_os2,
                ''fvar'' \<mapsto> Fvar [\<lparr>axisTag = ''wdth'', defaultValue = 100\<rparr>,
                                  \<lparr>axisTag = ''wght'', defaultValue = 1101 / 2\<rparr>]],
      glyphOrder = [], stylename = ''Display''\<rparr>"

text \<open>
  A variable font whose \<^verbatim>\<open>wght\<close> axis, with default 550.5, stands between an optical-size
  axis and a width axis.
\<close>

definition three_axes :: "axis list" where
  "three_axes =
     [\<lparr>axisTag = ''opsz'', defaultValue = 14\<rparr>,
      \<lparr>axisTag = ''wght'', defaultValue = 1101 / 2\<rparr>,
      \<lparr>axisTag = ''wdth'', defaultValue = 100\<rparr>]"

definition three_axes_font :: font where
  "three_axes_font =
     \<lparr>tables = [''OS/2'' \<mapsto> OS2 example_os2, ''fvar'' \<mapsto> Fvar three_axes],
      glyphOrder = [], stylename = ''Black''\<rparr>"

text \<open>A static font that has a weight name and \<^verbatim>\<open>Italic\<close> in its style name.\<close>

definition extrabold_italic_font :: font where
  "extrabold_italic_font =
     \<lparr>tables = [''OS/2'' \<mapsto> OS2 example_os2], glyphOrder = [],
      stylename = ''ExtraBold Italic''\<rparr>"

text \<open>
  The change results of the fixes that \<^verbatim>\<open>FontFixer.fix\<close> applies to a font, in order: the
  truth of what each fix returned, up to the first fix that raises.
\<close>

fun applied_changes :: "fix_rule list \<Rightarrow> font \<Rightarrow> bool list" where
  "applied_changes [] ttfont = []"
| "applied_changes (f # fs) ttfont =
     (case f ttfont of
        (Inl e, ttfont') \<Rightarrow> []
      | (Inr r, ttfont') \<Rightarrow> rv_changed r # applied_changes fs ttfont')"

text \<open>Three fixes and an object to run them on.\<close>

definition quiet_rule :: fix_rule where
  "quiet_rule ttfont = (Inr (RValue False), ttfont)"

definition changing_rule :: fix_rule where
  "changing_rule ttfont = (Inr (RTuple True [''changed'']), ttfont\<lparr>stylename := ''Bold''\<rparr>)"

definition failing_rule :: fix_rule where
  "failing_rule ttfont = (Inl ValueError, ttfont)"

definition example_fixer :: "fix_rule list \<Rightarrow> FontFixer" where
  "example_fixer fs = FontFixer_init black_font ''fonts/Example-Black.ttf'' True False (Some fs)"

text \<open>
  Stand-ins for the external tools (a rasterizer that returns its input, hence without an
  \<^verbatim>\<open>SVG\<close> table) and COLR fonts of a given version and glyph count.
\<close>

definition example_tools :: external_tools where
  "example_tools =
     \<lparr>load_fully = (\<lambda>f. f),
      reorder_glyphs = (\<lambda>f order. f\<lparr>glyphOrder := order\<rparr>),
      maximum_color = (\<lambda>f. Inr f)\<rparr>"

definition colr_font :: "int \<Rightarrow> int \<Rightarrow> font" where
  "colr_font colr_version numGlyphs =
     \<lparr>tables = [''COLR'' \<mapsto> COLR colr_version, ''maxp'' \<mapsto> Maxp numGlyphs,
                ''glyf'' \<mapsto> Glyf [(''.notdef'', 2), (''space'', 0), (''A'', 1)]],
      glyphOrder = [''.notdef'', ''space'', ''A''], stylename = ''Regular''\<rparr>"

text \<open>
  The records that \<^verbatim>\<open>getName(n, 1, 0, 0)\<close> looks for: Macintosh platform, encoding 0,
  language 0, name identifier \<open>n\<close>.
\<close>

definition is_mac_record :: "int \<Rightarrow> name_record \<Rightarrow> bool" where
  "is_mac_record n r = (nameID r = n \<and> platformID r = 1 \<and> platEncID r = 0 \<and> langID r = 0)"

text \<open>
  What the name-pruning claim says of the list \<open>kept\<close> left after a call on \<open>names\<close>, when
  the identifiers for which \<open>keep\<close> holds are spared: nothing is added or reordered; for
  each identifier from 0 to 254 that is not spared the first matching Macintosh record is
  gone and no other; every record that is not such a record (another platform, encoding or
  language, an identifier of 255 or more, a spared identifier) is still there; and the
  list differs from the old one iff it is shorter.
\<close>

definition pruned_by :: "(int \<Rightarrow> bool) \<Rightarrow> name_record list \<Rightarrow> name_record list \<Rightarrow> bool" where
  "pruned_by keep names kept =
     (subseq kept names
      \<and> (\<forall>n. filter (is_mac_record n) kept =
             (if 0 \<le> n \<and> n < 255 \<and> \<not> keep n then tl (filter (is_mac_record n) names)
              else filter (is_mac_record n) names))
      \<and> filter (\<lambda>r. \<not> (platformID r = 1 \<and> platEncID r = 0 \<and> langID r = 0
                         \<and> 0 \<le> nameID r \<and> nameID r < 255 \<and> \<not> keep (nameID r))) kept
          = filter (\<lambda>r. \<not> (platformID r = 1 \<and> platEncID r = 0 \<and> langID r = 0
                         \<and> 0 \<le> nameID r \<and> nameID r < 255 \<and> \<not> keep (nameID r))) names
      \<and> (kept \<noteq> names) = (length kept < length names))"

text \<open>A name table with Macintosh records, one of them twice, and records out of reach.\<close>

definition mac_name :: "int \<Rightarrow> name_record" where
  "mac_name n = \<lparr>nameID = n, platformID = 1, platEncID = 0, langID = 0, string = ''Example''\<rparr>"

definition example_names :: "name_record list" where
  "example_names =
     [mac_name 1, mac_name 2, mac_name 15, mac_name 19,
      (mac_name 15)\<lparr>platformID := 3, platEncID := 1, langID := 0x409\<rparr>,
      mac_name 255, (mac_name 15)\<lparr>langID := 1\<rparr>, mac_name 15]"

definition names_font :: font where
  "names_font =
     \<lparr>tables = [''name'' \<mapsto> Name example_names], glyphOrder = [], stylename = ''Regular''\<rparr>"

text \<open>
  The eight vertical-metric fields of a font as one value (the spec's VerticalMetricsSet),
  read from its \<^verbatim>\<open>OS/2\<close> and \<^verbatim>\<open>hhea\<close> tables; the glyph extents of a font, read from its
  \<^verbatim>\<open>head\<close> table; and the fonts that have all three tables.
\<close>

record VerticalMetricsSet =
  typoAscender :: int
  typoDescender :: int
  typoLineGap :: int
  winAscent :: int
  winDescent :: int
  hheaAscent :: int
  hheaDescent :: int
  hheaLineGap :: int

definition vertical_metrics :: "font \<Rightarrow> VerticalMetricsSet option" where
  "vertical_metrics f =
     (case get_OS2 f of
        Inl e \<Rightarrow> None
      | Inr os2 \<Rightarrow>
          (case get_hhea f of
             Inl e \<Rightarrow> None
           | Inr hhea \<Rightarrow>
               Some \<lparr>typoAscender = sTypoAscender os2, typoDescender = sTypoDescender os2,
                     typoLineGap = sTypoLineGap os2, winAscent = usWinAscent os2,
                     winDescent = usWinDescent os2, hheaAscent = ascent hhea,
                     hheaDescent = descent hhea, hheaLineGap = lineGap hhea\<rparr>))"

definition glyph_extent :: "font \<Rightarrow> (int \<times> int) option" where
  "glyph_extent f = (case get_head f of Inl e \<Rightarrow> None | Inr head \<Rightarrow> Some (yMin head, yMax head))"

definition has_metric_tables :: "font \<Rightarrow> bool" where
  "has_metric_tables f = (vertical_metrics f \<noteq> None \<and> glyph_extent f \<noteq> None)"

text \<open>A family of three fonts with different extents; the second is the Regular.\<close>

definition family_font :: "string \<Rightarrow> int \<Rightarrow> int \<Rightarrow> int \<Rightarrow> font" where
  "family_font style sel lo hi =
     \<lparr>tables =
        [''OS/2'' \<mapsto> OS2 (example_os2\<lparr>fsSelection := sel, usWinAscent := hi, usWinDescent := - lo\<rparr>),
         ''hhea'' \<mapsto> Hhea \<lparr>ascent = hi, descent = lo, lineGap = 0, advanceWidthMax = 1000\<rparr>,
         ''head'' \<mapsto> Head \<lparr>flags = 0, macStyle = 0, yMin = lo, yMax = hi\<rparr>],
      glyphOrder = [], stylename = style\<rparr>"

definition example_family :: "font list" where
  "example_family =
     [family_font ''Bold'' 0x20 (- 250) 900,
      family_font ''Regular'' 0x40 (- 200) 1000,
      family_font ''Italic'' 0x81 (- 300) 1100]"

text \<open>
  What the fixed-pitch claim says of a monospace font: the panose values that the family
  type calls for, the positive advance widths, and their rounded average.
\<close>

definition monospace_panose :: "panose_t \<Rightarrow> panose_t" where
  "monospace_panose p =
     (if bFamilyType p = 2 then p\<lparr>bProportion := 9\<rparr>
      else if bFamilyType p = 3 \<or> bFamilyType p = 5 then p\<lparr>bProportion := 3\<rparr>
      else if bFamilyType p = 0 then p\<lparr>bFamilyType := 2, bProportion := 9\<rparr>
      else p)"

definition positive_widths :: "(string \<times> int \<times> int) list \<Rightarrow> int list" where
  "positive_widths glyph_metrics = filter (\<lambda>w. w > 0) (map (\<lambda>m. fst m) (map snd glyph_metrics))"

definition average_width :: "(string \<times> int \<times> int) list \<Rightarrow> int" where
  "average_width glyph_metrics =
     otRound (real_of_int (sum_list (positive_widths glyph_metrics))
              / real (length (positive_widths glyph_metrics)))"

text \<open>
  Two conditions on a font under which a second application of a rule finds nothing to do.
  The name-pruning functions remove one record per name identifier and call, so the name
  table is to hold at most one Macintosh record with encoding 0 and language 0 for each
  identifier from 0 to 254 that the function prunes (\<open>keep\<close> tells the identifiers it
  skips). \<^verbatim>\<open>fix_pua\<close> writes the code point \<^verbatim>\<open>0xF0000 + i\<close> for every glyph of index \<open>i\<close>
  that no subtable encodes, so an existing UCS-4 subtable is to map none of the code points
  that the call writes.
\<close>

definition single_mac_records :: "(int \<Rightarrow> bool) \<Rightarrow> font \<Rightarrow> bool" where
  "single_mac_records keep f =
     (case get_name f of
        Inl e \<Rightarrow> True
      | Inr names \<Rightarrow>
          distinct (map nameID
            (filter (\<lambda>r. platformID r = 1 \<and> platEncID r = 0 \<and> langID r = 0
                          \<and> 0 \<le> nameID r \<and> nameID r < 255 \<and> \<not> keep (nameID r)) names)))"

definition pua_slots_free :: "font \<Rightarrow> bool" where
  "pua_slots_free f =
     (case get_cmap f of
        Inl e \<Rightarrow> True
      | Inr tbls \<Rightarrow>
          (case getcmap tbls 3 10 of
             None \<Rightarrow> True
           | Some t \<Rightarrow>
               (case cmap t of
                  None \<Rightarrow> True
                | Some d \<Rightarrow>
                    list_all (\<lambda>(i, g). g \<in> set (encoded_glyphs tbls)
                                \<or> map_of d (0xF0000 + int i) = None)
                      (enumerate 0 (glyphOrder f)))))"

text \<open>
  A monospace font (\<^verbatim>\<open>A\<close> to \<^verbatim>\<open>Z\<close> with advance width 600) with a given
  \<^verbatim>\<open>hhea.advanceWidthMax\<close>; name tables with two Macintosh copyright records; a font with
  one glyph, at index 5, that no subtable encodes, and the same font after \<^verbatim>\<open>fix_pua\<close>;
  a font whose UCS-4 subtable already uses a private-use code point.
\<close>

definition monospace_font :: "int \<Rightarrow> font" where
  "monospace_font width_max =
     \<lparr>tables =
        [''hmtx'' \<mapsto> Hmtx ((''.notdef'', 0, 0) # map (\<lambda>g. (g, 600, 10)) uppercase_glyphs),
         ''post'' \<mapsto> Post \<lparr>italicAngle = 0, isFixedPitch = 0\<rparr>,
         ''OS/2'' \<mapsto> OS2 example_os2,
         ''hhea'' \<mapsto> Hhea \<lparr>ascent = 800, descent = - 200, lineGap = 0,
                             advanceWidthMax = width_max\<rparr>],
      glyphOrder = ''.notdef'' # uppercase_glyphs, stylename = ''Regular''\<rparr>"

definition duplicate_names_font :: "name_record list \<Rightarrow> font" where
  "duplicate_names_font names =
     \<lparr>tables = [''name'' \<mapsto> Name names], glyphOrder = [], stylename = ''Regular''\<rparr>"

definition second_copyright :: name_record where
  "second_copyright = (mac_name 0)\<lparr>string := ''Second notice''\<rparr>"

definition pua_example_font :: font where
  "pua_example_font =
     \<lparr>tables =
        [''cmap'' \<mapsto> Cmap [\<lparr>cmap_platformID = 3, cmap_platEncID = 1, cmap_language = 0,
                             cmap_format = 4,
                             cmap = Some [(65, ''A''), (66, ''B''), (67, ''C''), (68, ''D''),
                                          (69, ''E'')]\<rparr>]],
      glyphOrder = [''A'', ''B'', ''C'', ''D'', ''E'', ''E.alt''], stylename = ''Regular''\<rparr>"

definition pua_example_fixed :: font where
  "pua_example_fixed =
     set_table ''cmap''
       (Cmap [\<lparr>cmap_platformID = 3, cmap_platEncID = 1, cmap_language = 0, cmap_format = 4,
                cmap = Some [(65, ''A''), (66, ''B''), (67, ''C''), (68, ''D''), (69, ''E'')]\<rparr>,
              \<lparr>cmap_platformID = 3, cmap_platEncID = 10, cmap_language = 0, cmap_format = 12,
                cmap = Some [(65, ''A''), (66, ''B''), (67, ''C''), (68, ''D''), (69, ''E''),
                             (0xF0005, ''E.alt'')]\<rparr>])
       pua_example_font"

definition pua_taken_font :: "(int \<times> string) list \<Rightarrow> font" where
  "pua_taken_font d =
     \<lparr>tables =
        [''cmap'' \<mapsto> Cmap [\<lparr>cmap_platformID = 3, cmap_platEncID = 10, cmap_language = 0,
                             cmap_format = 12, cmap = Some d\<rparr>]],
      glyphOrder = [''x'', ''y''], stylename = ''Regular''\<rparr>"

section \<open>Verified properties\<close>

subsection \<open>Table pruning\<close>

lemma dom_remove_tables:
  "dom (tables (remove_tables f tbls)) =
     dom (tables f) - (UNWANTED_TABLES \<inter> requested_tables tbls)"
  by (auto simp: remove_tables_def Let_def restrict_map_def split: if_splits)

lemma remove_tables_keeps:
  "t \<notin> UNWANTED_TABLES \<inter> dom (tables f) \<inter> requested_tables tbls \<Longrightarrow>
     tables (remove_tables f tbls) t = tables f t"
  by (auto simp: remove_tables_def Let_def restrict_map_def domIff split: if_splits)

text \<open>
  C8. \<^verbatim>\<open>remove_tables\<close> always returns. Called with a non-empty list \<open>ts\<close> of tags, the
  tables it deletes are exactly those in the intersection of \<open>UNWANTED_TABLES\<close>, the tables
  of the font and \<open>set ts\<close>; called with \<open>None\<close> (or an empty list), exactly the tables of
  \<open>UNWANTED_TABLES\<close> that the font has. Every table that stays keeps its content; a table
  outside \<open>UNWANTED_TABLES\<close> stays even when requested; a request that names only absent
  tables leaves the font as it was. Glyph order and style name are untouched.
\<close>

theorem remove_tables_frame:
  "(ts \<noteq> [] \<longrightarrow>
      dom (tables (remove_tables f (Some ts)))
        = dom (tables f) - (UNWANTED_TABLES \<inter> dom (tables f) \<inter> set ts))
   \<and> dom (tables (remove_tables f None))
       = dom (tables f) - (UNWANTED_TABLES \<inter> dom (tables f) \<inter> UNWANTED_TABLES)
   \<and> dom (tables (remove_tables f (Some [])))
       = dom (tables f) - (UNWANTED_TABLES \<inter> dom (tables f) \<inter> UNWANTED_TABLES)
   \<and> (\<forall>t. ts \<noteq> [] \<longrightarrow> t \<notin> UNWANTED_TABLES \<inter> dom (tables f) \<inter> set ts \<longrightarrow>
          tables (remove_tables f (Some ts)) t = tables f t)
   \<and> (ts \<noteq> [] \<longrightarrow> set ts \<inter> dom (tables f) = {} \<longrightarrow> remove_tables f (Some ts) = f)
   \<and> requested_tables (Some ts) = (if ts = [] then UNWANTED_TABLES else set ts)
   \<and> requested_tables None = UNWANTED_TABLES
   \<and> dom (tables (remove_tables f tbls))
       = dom (tables f) - (UNWANTED_TABLES \<inter> dom (tables f) \<inter> requested_tables tbls)
   \<and> (\<forall>t. t \<notin> UNWANTED_TABLES \<inter> dom (tables f) \<inter> requested_tables tbls
          \<longrightarrow> tables (remove_tables f tbls) t = tables f t)
   \<and> (\<forall>t. t \<notin> UNWANTED_TABLES \<longrightarrow> tables (remove_tables f tbls) t = tables f t)
   \<and> (requested_tables tbls \<inter> dom (tables f) = {} \<longrightarrow> remove_tables f tbls = f)
   \<and> glyphOrder (remove_tables f tbls) = glyphOrder f
   \<and> stylename (remove_tables f tbls) = stylename f"
proof -
  have rq: "requested_tables (Some ts) = (if ts = [] then UNWANTED_TABLES else set ts)"
    "requested_tables None = UNWANTED_TABLES" "requested_tables (Some []) = UNWANTED_TABLES"
    by (simp_all add: requested_tables_def)
  have d: "dom (tables (remove_tables f r))
       = dom (tables f) - (UNWANTED_TABLES \<inter> dom (tables f) \<inter> requested_tables r)" for r
    using dom_remove_tables [of f r] by blast
  have k: "tables (remove_tables f r) t = tables f t"
    if "t \<notin> UNWANTED_TABLES \<inter> dom (tables f) \<inter> requested_tables r" for r t
    using that by (rule remove_tables_keeps)
  have u: "remove_tables f r = f" if "requested_tables r \<inter> dom (tables f) = {}" for r
  proof -
    from that have "UNWANTED_TABLES \<inter> dom (tables f) \<inter> requested_tables r = {}"
      by blast
    then show ?thesis
      by (simp add: remove_tables_def Let_def)
  qed
  have c1: "ts \<noteq> [] \<longrightarrow>
      dom (tables (remove_tables f (Some ts)))
        = dom (tables f) - (UNWANTED_TABLES \<inter> dom (tables f) \<inter> set ts)"
    using d [of "Some ts"] by (simp add: rq(1))
  have c2: "dom (tables (remove_tables f None))
       = dom (tables f) - (UNWANTED_TABLES \<inter> dom (tables f) \<inter> UNWANTED_TABLES)"
    using d [of None] by (simp only: rq(2))
  have c3: "dom (tables (remove_tables f (Some [])))
       = dom (tables f) - (UNWANTED_TABLES \<inter> dom (tables f) \<inter> UNWANTED_TABLES)"
    using d [of "Some []"] by (simp only: rq(3))
  have c4: "\<forall>t. ts \<noteq> [] \<longrightarrow> t \<notin> UNWANTED_TABLES \<inter> dom (tables f) \<inter> set ts \<longrightarrow>
          tables (remove_tables f (Some ts)) t = tables f t"
    using k [of _ "Some ts"] by (simp add: rq(1))
  have c5: "ts \<noteq> [] \<longrightarrow> set ts \<inter> dom (tables f) = {} \<longrightarrow> remove_tables f (Some ts) = f"
    using u [of "Some ts"] by (simp add: rq(1))
  have c9: "\<forall>t. t \<notin> UNWANTED_TABLES \<inter> dom (tables f) \<inter> requested_tables tbls
          \<longrightarrow> tables (remove_tables f tbls) t = tables f t"
    using k [of _ tbls] by blast
  have c10: "\<forall>t. t \<notin> UNWANTED_TABLES \<longrightarrow> tables (remove_tables f tbls) t = tables f t"
    using k [of _ tbls] by blast
  have c11: "requested_tables tbls \<inter> dom (tables f) = {} \<longrightarrow> remove_tables f tbls = f"
    using u [of tbls] by blast
  have c12: "glyphOrder (remove_tables f tbls) = glyphOrder f"
    "stylename (remove_tables f tbls) = stylename f"
    by (simp_all add: remove_tables_def Let_def)
  show ?thesis
    by (intro conjI c1 c2 c3 c4 c5 rq(1) rq(2) d c9 c10 c11 c12)
qed

theorem remove_tables_frame_witness:
  "dom (tables (remove_tables pruning_example (Some [''FFTM'', ''head'', ''prop''])))
     = {''head'', ''TTFA''}
   \<and> tables (remove_tables pruning_example (Some [''FFTM'', ''head'', ''prop''])) ''head''
       = Some Raw
   \<and> remove_tables pruning_example (Some [''prop'', ''TSI0'']) = pruning_example
   \<and> dom (tables (remove_tables pruning_example None)) = {''head''}"
proof -
  let ?ts = "[''FFTM'', ''head'', ''prop'']"
  note frame = remove_tables_frame [of ?ts pruning_example]
  have ne: "?ts \<noteq> []" by simp
  have "dom (tables (remove_tables pruning_example (Some ?ts)))
          = dom (tables pruning_example)
            - (UNWANTED_TABLES \<inter> dom (tables pruning_example) \<inter> set ?ts)"
    using frame [THEN conjunct1] ne by (rule mp)
  also have "\<dots> = {''head'', ''TTFA''}"
    by (auto simp: pruning_example_def UNWANTED_TABLES_def)
  finally have d: "dom (tables (remove_tables pruning_example (Some ?ts))) = {''head'', ''TTFA''}" .
  have "''head'' \<notin> UNWANTED_TABLES \<inter> dom (tables pruning_example) \<inter> set ?ts"
    by (simp add: UNWANTED_TABLES_def)
  with frame ne have "tables (remove_tables pruning_example (Some ?ts)) ''head''
      = tables pruning_example ''head''"
    by blast
  then have k: "tables (remove_tables pruning_example (Some ?ts)) ''head'' = Some Raw"
    by (simp add: pruning_example_def)
  have "[''prop'', ''TSI0''] \<noteq> []"
    "set [''prop'', ''TSI0''] \<inter> dom (tables pruning_example) = {}"
    by (auto simp: pruning_example_def)
  then have a: "remove_tables pruning_example (Some [''prop'', ''TSI0'']) = pruning_example"
    using remove_tables_frame [of "[''prop'', ''TSI0'']" pruning_example] by blast
  have "dom (tables (remove_tables pruning_example None))
          = dom (tables pruning_example)
            - (UNWANTED_TABLES \<inter> dom (tables pruning_example) \<inter> UNWANTED_TABLES)"
    using frame by blast
  also have "\<dots> = {''head''}"
    by (auto simp: pruning_example_def UNWANTED_TABLES_def)
  finally have n: "dom (tables (remove_tables pruning_example None)) = {''head''}" .
  from d k a n show ?thesis by blast
qed

subsection \<open>Selection flags\<close>

lemma bit_one_shl: "bit (push_bit m (1::int)) n \<longleftrightarrow> n = m"
  by (auto simp: bit_exp_iff)

lemma bit_zero_int: "\<not> bit (0::int) n"
  by simp

lemma fs_selection_bits:
  "bit ((((old AND push_bit 7 1) OR (if i then push_bit 0 1 else 0))
           OR (if b then push_bit 5 1 else 0)) OR (if r then push_bit 6 1 else (0::int))) n
   \<longleftrightarrow> (n = 7 \<and> bit old 7) \<or> (n = 0 \<and> i) \<or> (n = 5 \<and> b) \<or> (n = 6 \<and> r)"
  by (cases i; cases b; cases r)
     (auto simp only: if_True if_False bit_or_iff bit_and_iff bit_one_shl bit_zero_int)

text \<open>
  C4. On a font with an \<^verbatim>\<open>OS/2\<close> table, \<^verbatim>\<open>fix_fs_selection\<close> returns, stores a value
  \<open>sel\<close> in \<^verbatim>\<open>fsSelection\<close> and changes nothing else. Bit 7 of \<open>sel\<close> is the old bit 7, bit 0
  is set iff \<^verbatim>\<open>Italic\<close> is a token of the style name, bit 5 iff \<^verbatim>\<open>Bold\<close> is, bit 6 iff
  neither is, and every other bit is clear. The returned flag is true iff \<open>sel\<close> differs
  from the old value.
\<close>

theorem fix_fs_selection_bits:
  assumes "get_OS2 f = Inr os2"
  shows "\<exists>sel. fix_fs_selection f
            = Inr (fsSelection os2 \<noteq> sel, set_table ''OS/2'' (OS2 (os2\<lparr>fsSelection := sel\<rparr>)) f)
         \<and> (\<forall>n. bit sel n \<longleftrightarrow>
                (n = 7 \<and> bit (fsSelection os2) 7)
              \<or> (n = 0 \<and> ''Italic'' \<in> set (str_split (font_stylename f)))
              \<or> (n = 5 \<and> ''Bold'' \<in> set (str_split (font_stylename f)))
              \<or> (n = 6 \<and> ''Bold'' \<notin> set (str_split (font_stylename f))
                        \<and> ''Italic'' \<notin> set (str_split (font_stylename f))))"
proof -
  let ?tok = "set (str_split (font_stylename f))"
  let ?sel = "(((fsSelection os2 AND push_bit 7 1)
                 OR (if ''Italic'' \<in> ?tok then push_bit 0 1 else 0))
                 OR (if ''Bold'' \<in> ?tok then push_bit 5 1 else 0))
                 OR (if ?tok \<inter> {''Bold'', ''Italic''} = {} then push_bit 6 1 else (0::int))"
  have "fix_fs_selection f
          = Inr (fsSelection os2 \<noteq> ?sel, set_table ''OS/2'' (OS2 (os2\<lparr>fsSelection := ?sel\<rparr>)) f)"
    using assms by (simp add: fix_fs_selection_def Let_def)
  moreover have "\<forall>n. bit ?sel n \<longleftrightarrow>
                (n = 7 \<and> bit (fsSelection os2) 7)
              \<or> (n = 0 \<and> ''Italic'' \<in> ?tok)
              \<or> (n = 5 \<and> ''Bold'' \<in> ?tok)
              \<or> (n = 6 \<and> ''Bold'' \<notin> ?tok \<and> ''Italic'' \<notin> ?tok)"
    unfolding fs_selection_bits by auto
  ultimately show ?thesis by blast
qed

theorem fix_fs_selection_bits_witness:
  "get_OS2 bold_italic_font = Inr example_os2
   \<and> (\<exists>sel. fix_fs_selection bold_italic_font
               = Inr (fsSelection example_os2 \<noteq> sel,
                      set_table ''OS/2'' (OS2 (example_os2\<lparr>fsSelection := sel\<rparr>)) bold_italic_font)
            \<and> bit sel 0 \<and> bit sel 5 \<and> \<not> bit sel 6 \<and> bit sel 7 \<and> \<not> bit sel 1)"
proof -
  have h: "get_OS2 bold_italic_font = Inr example_os2"
    by (simp add: get_OS2_def bold_italic_font_def)
  have tok: "str_split (font_stylename bold_italic_font) = [''Bold'', ''Italic'']"
    by (simp add: font_stylename_def bold_italic_font_def str_split_def is_space_def)
  have old: "bit (fsSelection example_os2) 7"
    by (simp add: example_os2_def)
  from fix_fs_selection_bits [OF h] obtain sel where
    r: "fix_fs_selection bold_italic_font
          = Inr (fsSelection example_os2 \<noteq> sel,
                 set_table ''OS/2'' (OS2 (example_os2\<lparr>fsSelection := sel\<rparr>)) bold_italic_font)"
    and b: "\<And>n. bit sel n \<longleftrightarrow>
                (n = 7 \<and> bit (fsSelection example_os2) 7)
              \<or> (n = 0 \<and> ''Italic'' \<in> set (str_split (font_stylename bold_italic_font)))
              \<or> (n = 5 \<and> ''Bold'' \<in> set (str_split (font_stylename bold_italic_font)))
              \<or> (n = 6 \<and> ''Bold'' \<notin> set (str_split (font_stylename bold_italic_font))
                        \<and> ''Italic'' \<notin> set (str_split (font_stylename bold_italic_font)))"
    by blast
  have "bit sel 0" "bit sel 5" "\<not> bit sel 6" "bit sel 7" "\<not> bit sel 1"
    using old by (simp_all add: b tok)
  with h r show ?thesis by blast
qed

subsection \<open>Weight class\<close>

lemma find_sort_key_Some:
  fixes f :: "'a \<Rightarrow> 'b::linorder"
  assumes "find P (sort_key f xs) = Some x"
  shows "x \<in> set xs \<and> P x \<and> (\<forall>y\<in>set xs. P y \<longrightarrow> f x \<le> f y)"
proof -
  let ?ys = "sort_key f xs"
  from assms obtain i where i: "i < length ?ys" "P (?ys ! i)" "x = ?ys ! i"
    and before: "\<forall>j<i. \<not> P (?ys ! j)"
    unfolding find_Some_iff by blast
  have srt: "sorted (map f ?ys)" by simp
  have "x \<in> set ?ys" unfolding i(3) by (rule nth_mem) (rule i(1))
  then have xin: "x \<in> set xs" by (simp only: set_sort)
  have px: "P x" using i(2,3) by simp
  have "f x \<le> f y" if "y \<in> set xs" "P y" for y
  proof -
    from that(1) have "y \<in> set ?ys" by (simp only: set_sort)
    then obtain k where k: "k < length ?ys" "?ys ! k = y"
      unfolding in_set_conv_nth by blast
    have "\<not> k < i" using before that(2) k(2) by blast
    then have ik: "i \<le> k" by simp
    have "map f ?ys ! i \<le> map f ?ys ! k"
      using srt ik k(1) unfolding sorted_iff_nth_mono length_map by blast
    then show ?thesis using i(1,3) k by (simp only: nth_map)
  qed
  with xin px show ?thesis by blast
qed

lemma find_Some_ex: "\<exists>x\<in>set xs. P x \<Longrightarrow> \<exists>y. find P xs = Some y"
  by (cases "find P xs") (auto simp: find_None_iff)

lemma set_sorted_weight_names:
  "set (sorted_weight_names known) = fst ` set (WEIGHT_NAMES known)"
  by (simp add: sorted_weight_names_def)

lemma map_of_WEIGHT_NAMES:
  "map_of (WEIGHT_NAMES known) =
     ((map_of known)([] := None))(''Hairline'' \<mapsto> 1, ''ExtraBlack'' \<mapsto> 1000)"
  by (simp add: WEIGHT_NAMES_def update_conv' delete_conv')

lemma weight_class_from_stylename_match:
  assumes "\<exists>s\<in>fst ` set (WEIGHT_NAMES known). s \<in> set (str_split (font_stylename f))"
  shows "\<exists>style w. style \<in> set (str_split (font_stylename f))
           \<and> map_of (WEIGHT_NAMES known) style = Some w
           \<and> (\<forall>s\<in>fst ` set (WEIGHT_NAMES known).
                  s \<in> set (str_split (font_stylename f)) \<longrightarrow> length s \<le> length style)
           \<and> weight_class_from_stylename known f os2
               = Inr (w \<noteq> usWeightClass os2, set_table ''OS/2'' (OS2 (os2\<lparr>usWeightClass := w\<rparr>)) f)"
proof -
  let ?tok = "str_split (font_stylename f)"
  from assms have ex: "\<exists>x\<in>set (sorted_weight_names known). x \<in> set ?tok"
    by (simp only: set_sorted_weight_names)
  from find_Some_ex [where P = "\<lambda>style. style \<in> set ?tok", OF ex]
  obtain style where fs: "find (\<lambda>style. style \<in> set ?tok) (sorted_weight_names known) = Some style"
    by (rule exE)
  note fsk = find_sort_key_Some [where P = "\<lambda>style. style \<in> set ?tok"
      and f = "\<lambda>k. - int (length k)" and xs = "map fst (WEIGHT_NAMES known)" and x = style,
      OF fs [unfolded sorted_weight_names_def]]
  from fsk have st: "style \<in> set (map fst (WEIGHT_NAMES known))" "style \<in> set ?tok"
    by (rule conjunct1, rule conjunct2 [THEN conjunct1])
  from fsk have mx: "\<forall>y\<in>set (map fst (WEIGHT_NAMES known)).
      y \<in> set ?tok \<longrightarrow> - int (length style) \<le> - int (length y)"
    by (rule conjunct2 [THEN conjunct2])
  from st(1) obtain w where w: "map_of (WEIGHT_NAMES known) style = Some w"
    by (cases "map_of (WEIGHT_NAMES known) style") (auto simp: map_of_eq_None_iff)
  have "weight_class_from_stylename known f os2
          = Inr (w \<noteq> usWeightClass os2, set_table ''OS/2'' (OS2 (os2\<lparr>usWeightClass := w\<rparr>)) f)"
    using fs w by (simp add: weight_class_from_stylename_def store_weight_class_def Let_def)
  moreover have "\<forall>s\<in>fst ` set (WEIGHT_NAMES known). s \<in> set ?tok \<longrightarrow> length s \<le> length style"
    using mx by auto
  ultimately show ?thesis using st(2) w by blast
qed

lemma weight_class_from_stylename_nomatch:
  assumes "\<not> (\<exists>s\<in>fst ` set (WEIGHT_NAMES known). s \<in> set (str_split (font_stylename f)))"
  shows "weight_class_from_stylename known f os2 =
           (if ''Italic'' \<in> set (str_split (font_stylename f))
            then Inr (400 \<noteq> usWeightClass os2, set_table ''OS/2'' (OS2 (os2\<lparr>usWeightClass := 400\<rparr>)) f)
            else Inl ValueError)"
proof -
  have "find (\<lambda>style. style \<in> set (str_split (font_stylename f))) (sorted_weight_names known) = None"
    using assms by (simp add: find_None_iff set_sorted_weight_names)
  then show ?thesis
    by (simp add: weight_class_from_stylename_def store_weight_class_def Let_def)
qed

lemma default_axis_value_Some:
  "tag \<in> axisTag ` set axes \<Longrightarrow> \<exists>v. default_axis_value axes tag = Some v"
proof -
  assume "tag \<in> axisTag ` set axes"
  then have "tag \<in> fst ` set (rev (map (\<lambda>a. (axisTag a, defaultValue a)) axes))"
    by (force simp: image_iff)
  then have "map_of (rev (map (\<lambda>a. (axisTag a, defaultValue a)) axes)) tag \<noteq> None"
    by (simp only: map_of_eq_None_iff not_not)
  then show ?thesis by (auto simp: default_axis_value_def)
qed

lemma default_axis_value_last:
  assumes "axisTag a = tag" and "tag \<notin> axisTag ` set post"
  shows "default_axis_value (pre @ a # post) tag = Some (defaultValue a)"
proof -
  let ?p = "\<lambda>a. (axisTag a, defaultValue a)"
  from assms(2) have "tag \<notin> fst ` set (rev (map ?p post))"
    by (force simp: image_iff)
  then have n: "map_of (rev (map ?p post)) tag = None"
    unfolding map_of_eq_None_iff .
  have "default_axis_value (pre @ a # post) tag
          = map_of (rev (map ?p post) @ (?p a # rev (map ?p pre))) tag"
    by (simp add: default_axis_value_def)
  also have "\<dots> = (map_of (?p a # rev (map ?p pre)) ++ map_of (rev (map ?p post))) tag"
    by (simp only: map_of_append)
  also have "\<dots> = map_of (?p a # rev (map ?p pre)) tag"
    using n by (simp add: map_add_def)
  also have "\<dots> = Some (defaultValue a)"
    using assms(1) by simp
  finally show ?thesis .
qed

lemma default_axis_value_None:
  assumes "tag \<notin> axisTag ` set axes"
  shows "default_axis_value axes tag = None"
proof -
  from assms have "tag \<notin> fst ` set (rev (map (\<lambda>a. (axisTag a, defaultValue a)) axes))"
    by (force simp: image_iff)
  then show ?thesis
    unfolding default_axis_value_def map_of_eq_None_iff .
qed

text \<open>
  C3. On a font with an \<^verbatim>\<open>OS/2\<close> table: when the \<^verbatim>\<open>fvar\<close> table has an axis \<open>a\<close> tagged
  \<^verbatim>\<open>wght\<close> (the last such axis, should the table list several),
  \<^verbatim>\<open>fix_weight_class\<close> stores the default value of \<open>a\<close> truncated towards zero, whatever
  the style name. When there is no \<^verbatim>\<open>fvar\<close> table, or none of its axes is tagged
  \<^verbatim>\<open>wght\<close>: when some weight name is among the whitespace-separated tokens of the style
  name, it stores the class of a longest such name (\<^verbatim>\<open>Black\<close> gives 900 and
  \<^verbatim>\<open>ExtraBold Italic\<close> gives 800 when the table has these entries); when none is, it
  stores 400 if \<^verbatim>\<open>Italic\<close> is a token and raises \<^verbatim>\<open>ValueError\<close> if not. Whenever it stores
  a value it returns true iff that value differs from the old one.
\<close>

theorem fix_weight_class_spec:
  assumes "get_OS2 f = Inr os2"
  shows "(\<forall>pre a post. tables f ''fvar'' = Some (Fvar (pre @ a # post)) \<longrightarrow>
            axisTag a = ''wght'' \<longrightarrow> ''wght'' \<notin> axisTag ` set post \<longrightarrow>
            fix_weight_class known f
              = weight_class_result f os2
                  (if 0 \<le> defaultValue a then \<lfloor>defaultValue a\<rfloor> else \<lceil>defaultValue a\<rceil>))
    \<and> (\<forall>axes a. tables f ''fvar'' = Some (Fvar axes) \<longrightarrow> a \<in> set axes \<longrightarrow>
            axisTag a = ''wght'' \<longrightarrow>
            (\<forall>b\<in>set axes. axisTag b = ''wght'' \<longrightarrow> defaultValue b = defaultValue a) \<longrightarrow>
            fix_weight_class known f
              = weight_class_result f os2
                  (if 0 \<le> defaultValue a then \<lfloor>defaultValue a\<rfloor> else \<lceil>defaultValue a\<rceil>))
    \<and> ((tables f ''fvar'' = None
         \<or> (\<exists>axes. tables f ''fvar'' = Some (Fvar axes) \<and> ''wght'' \<notin> axisTag ` set axes))
        \<longrightarrow>
          ((\<exists>s\<in>fst ` set (WEIGHT_NAMES known). s \<in> set (str_split (font_stylename f))) \<longrightarrow>
             (\<exists>style w. style \<in> set (str_split (font_stylename f))
                \<and> map_of (WEIGHT_NAMES known) style = Some w
                \<and> (\<forall>s\<in>fst ` set (WEIGHT_NAMES known).
                       s \<in> set (str_split (font_stylename f)) \<longrightarrow> length s \<le> length style)
                \<and> fix_weight_class known f = weight_class_result f os2 w))
        \<and> (\<not> (\<exists>s\<in>fst ` set (WEIGHT_NAMES known). s \<in> set (str_split (font_stylename f))) \<longrightarrow>
             fix_weight_class known f =
               (if ''Italic'' \<in> set (str_split (font_stylename f))
                then weight_class_result f os2 400 else Inl ValueError))
        \<and> (font_stylename f = ''Black'' \<longrightarrow> map_of known ''Black'' = Some 900 \<longrightarrow>
             fix_weight_class known f = weight_class_result f os2 900)
        \<and> (font_stylename f = ''ExtraBold Italic'' \<longrightarrow> map_of known ''ExtraBold'' = Some 800 \<longrightarrow>
             fix_weight_class known f = weight_class_result f os2 800))"
proof -
  have last: "fix_weight_class known f
              = weight_class_result f os2
                  (if 0 \<le> defaultValue a then \<lfloor>defaultValue a\<rfloor> else \<lceil>defaultValue a\<rceil>)"
    if fv: "tables f ''fvar'' = Some (Fvar (pre @ a # post))"
      and tg: "axisTag a = ''wght''" and ps: "''wght'' \<notin> axisTag ` set post"
    for pre a post
  proof -
    have "default_axis_value (pre @ a # post) ''wght'' = Some (defaultValue a)"
      using tg ps by (rule default_axis_value_last)
    with fv assms show ?thesis
      by (simp add: fix_weight_class_def weight_class_result_def store_weight_class_def
          py_int_def Let_def)
  qed
  have c1: "\<forall>pre a post. tables f ''fvar'' = Some (Fvar (pre @ a # post)) \<longrightarrow>
            axisTag a = ''wght'' \<longrightarrow> ''wght'' \<notin> axisTag ` set post \<longrightarrow>
            fix_weight_class known f
              = weight_class_result f os2
                  (if 0 \<le> defaultValue a then \<lfloor>defaultValue a\<rfloor> else \<lceil>defaultValue a\<rceil>)"
    using last by blast
  have uniq: "fix_weight_class known f
              = weight_class_result f os2
                  (if 0 \<le> defaultValue a then \<lfloor>defaultValue a\<rfloor> else \<lceil>defaultValue a\<rceil>)"
    if fv: "tables f ''fvar'' = Some (Fvar axes)" and ain: "a \<in> set axes"
      and tg: "axisTag a = ''wght''"
      and same: "\<forall>b\<in>set axes. axisTag b = ''wght'' \<longrightarrow> defaultValue b = defaultValue a"
    for axes a
  proof -
    from ain tg have "\<exists>x\<in>set axes. axisTag x = ''wght''" by blast
    from split_list_last_prop [OF this] obtain pre b post where
      sp: "axes = pre @ b # post" "axisTag b = ''wght''" "\<forall>z\<in>set post. axisTag z \<noteq> ''wght''"
      by blast
    from sp(3) have ps: "''wght'' \<notin> axisTag ` set post" by force
    from sp(1) have "b \<in> set axes" by simp
    with same sp(2) have eq: "defaultValue b = defaultValue a" by blast
    from last [OF fv [unfolded sp(1)] sp(2) ps] show ?thesis
      by (simp only: eq)
  qed
  have c2: "\<forall>axes a. tables f ''fvar'' = Some (Fvar axes) \<longrightarrow> a \<in> set axes \<longrightarrow>
            axisTag a = ''wght'' \<longrightarrow>
            (\<forall>b\<in>set axes. axisTag b = ''wght'' \<longrightarrow> defaultValue b = defaultValue a) \<longrightarrow>
            fix_weight_class known f
              = weight_class_result f os2
                  (if 0 \<le> defaultValue a then \<lfloor>defaultValue a\<rfloor> else \<lceil>defaultValue a\<rceil>)"
    using uniq by blast
  have c3: "(tables f ''fvar'' = None
         \<or> (\<exists>axes. tables f ''fvar'' = Some (Fvar axes) \<and> ''wght'' \<notin> axisTag ` set axes))
        \<longrightarrow>
          ((\<exists>s\<in>fst ` set (WEIGHT_NAMES known). s \<in> set (str_split (font_stylename f))) \<longrightarrow>
             (\<exists>style w. style \<in> set (str_split (font_stylename f))
                \<and> map_of (WEIGHT_NAMES known) style = Some w
                \<and> (\<forall>s\<in>fst ` set (WEIGHT_NAMES known).
                       s \<in> set (str_split (font_stylename f)) \<longrightarrow> length s \<le> length style)
                \<and> fix_weight_class known f = weight_class_result f os2 w))
        \<and> (\<not> (\<exists>s\<in>fst ` set (WEIGHT_NAMES known). s \<in> set (str_split (font_stylename f))) \<longrightarrow>
             fix_weight_class known f =
               (if ''Italic'' \<in> set (str_split (font_stylename f))
                then weight_class_result f os2 400 else Inl ValueError))
        \<and> (font_stylename f = ''Black'' \<longrightarrow> map_of known ''Black'' = Some 900 \<longrightarrow>
             fix_weight_class known f = weight_class_result f os2 900)
        \<and> (font_stylename f = ''ExtraBold Italic'' \<longrightarrow> map_of known ''ExtraBold'' = Some 800 \<longrightarrow>
             fix_weight_class known f = weight_class_result f os2 800)"
  proof (intro conjI impI)
    assume nw: "tables f ''fvar'' = None
         \<or> (\<exists>axes. tables f ''fvar'' = Some (Fvar axes) \<and> ''wght'' \<notin> axisTag ` set axes)"
    then have "tables f ''fvar'' = None
         \<or> (\<exists>axes. tables f ''fvar'' = Some (Fvar axes) \<and> default_axis_value axes ''wght'' = None)"
      using default_axis_value_None [where tag = "''wght''"] by blast
    then have eq: "fix_weight_class known f = weight_class_from_stylename known f os2"
      using assms by (auto simp: fix_weight_class_def)
    {
      assume "\<exists>s\<in>fst ` set (WEIGHT_NAMES known). s \<in> set (str_split (font_stylename f))"
      from weight_class_from_stylename_match [OF this, of os2]
      show "\<exists>style w. style \<in> set (str_split (font_stylename f))
                  \<and> map_of (WEIGHT_NAMES known) style = Some w
                  \<and> (\<forall>s\<in>fst ` set (WEIGHT_NAMES known).
                         s \<in> set (str_split (font_stylename f)) \<longrightarrow> length s \<le> length style)
                  \<and> fix_weight_class known f = weight_class_result f os2 w"
        unfolding eq weight_class_result_def .
    }
    {
      assume "\<not> (\<exists>s\<in>fst ` set (WEIGHT_NAMES known). s \<in> set (str_split (font_stylename f)))"
      from weight_class_from_stylename_nomatch [OF this, of os2]
      show "fix_weight_class known f =
                 (if ''Italic'' \<in> set (str_split (font_stylename f))
                  then weight_class_result f os2 400 else Inl ValueError)"
        unfolding eq weight_class_result_def .
    }
    {
      assume sn: "font_stylename f = ''Black''" and kw: "map_of known ''Black'' = Some 900"
      have tok: "str_split (font_stylename f) = [''Black'']"
        by (simp add: sn str_split_def is_space_def)
      have m: "map_of (WEIGHT_NAMES known) ''Black'' = Some 900"
        by (simp add: map_of_WEIGHT_NAMES kw)
      then have "''Black'' \<in> fst ` set (WEIGHT_NAMES known)"
        by (metis map_of_eq_None_iff option.distinct(1))
      moreover have "''Black'' \<in> set (str_split (font_stylename f))"
        by (simp add: tok)
      ultimately have "\<exists>s\<in>fst ` set (WEIGHT_NAMES known). s \<in> set (str_split (font_stylename f))"
        by (rule bexI [rotated])
      from weight_class_from_stylename_match [OF this, of os2] obtain style w where
        sw: "style \<in> set (str_split (font_stylename f))"
            "map_of (WEIGHT_NAMES known) style = Some w"
            "weight_class_from_stylename known f os2
               = Inr (w \<noteq> usWeightClass os2, set_table ''OS/2'' (OS2 (os2\<lparr>usWeightClass := w\<rparr>)) f)"
        by blast
      from sw(1) have "style = ''Black''" by (simp add: tok)
      with sw(2) m have "w = 900" by simp
      with sw(3) show "fix_weight_class known f = weight_class_result f os2 900"
        unfolding eq weight_class_result_def by simp
    }
    {
      assume sn: "font_stylename f = ''ExtraBold Italic''"
        and kw: "map_of known ''ExtraBold'' = Some 800"
      have tok: "str_split (font_stylename f) = [''ExtraBold'', ''Italic'']"
        by (simp add: sn str_split_def is_space_def)
      have m: "map_of (WEIGHT_NAMES known) ''ExtraBold'' = Some 800"
        by (simp add: map_of_WEIGHT_NAMES kw)
      then have k: "''ExtraBold'' \<in> fst ` set (WEIGHT_NAMES known)"
        by (metis map_of_eq_None_iff option.distinct(1))
      moreover have "''ExtraBold'' \<in> set (str_split (font_stylename f))"
        by (simp add: tok)
      ultimately have "\<exists>s\<in>fst ` set (WEIGHT_NAMES known). s \<in> set (str_split (font_stylename f))"
        by (rule bexI [rotated])
      from weight_class_from_stylename_match [OF this, of os2] obtain style w where
        sw: "style \<in> set (str_split (font_stylename f))"
            "map_of (WEIGHT_NAMES known) style = Some w"
            "\<forall>s\<in>fst ` set (WEIGHT_NAMES known).
                s \<in> set (str_split (font_stylename f)) \<longrightarrow> length s \<le> length style"
            "weight_class_from_stylename known f os2
               = Inr (w \<noteq> usWeightClass os2, set_table ''OS/2'' (OS2 (os2\<lparr>usWeightClass := w\<rparr>)) f)"
        by blast
      have "''ExtraBold'' \<in> set (str_split (font_stylename f))" by (simp add: tok)
      with sw(3) k have "length ''ExtraBold'' \<le> length style" by blast
      moreover from sw(1) have "style = ''ExtraBold'' \<or> style = ''Italic''" by (simp add: tok)
      ultimately have "style = ''ExtraBold''" by auto
      with sw(2) m have "w = 800" by simp
      with sw(4) show "fix_weight_class known f = weight_class_result f os2 800"
        unfolding eq weight_class_result_def by simp
    }
  qed
  from c1 c2 c3 show ?thesis by (intro conjI)
qed

theorem fix_weight_class_spec_witness:
  "get_OS2 three_axes_font = Inr example_os2
   \<and> fix_weight_class example_known_weights three_axes_font
       = weight_class_result three_axes_font example_os2 550
   \<and> get_OS2 black_font = Inr example_os2
   \<and> fix_weight_class example_known_weights black_font
       = weight_class_result black_font example_os2 900
   \<and> get_OS2 extrabold_italic_font = Inr example_os2
   \<and> fix_weight_class example_known_weights extrabold_italic_font
       = weight_class_result extrabold_italic_font example_os2 800"
proof -
  let ?a = "\<lparr>axisTag = ''wght'', defaultValue = 1101 / 2\<rparr>"
  let ?pre = "[\<lparr>axisTag = ''opsz'', defaultValue = 14\<rparr>]"
  let ?post = "[\<lparr>axisTag = ''wdth'', defaultValue = 100\<rparr>]"
  have h1: "get_OS2 three_axes_font = Inr example_os2"
    by (simp add: get_OS2_def three_axes_font_def)
  have fv: "tables three_axes_font ''fvar'' = Some (Fvar (?pre @ ?a # ?post))"
    by (simp add: three_axes_font_def three_axes_def)
  have tg: "axisTag ?a = ''wght''" "''wght'' \<notin> axisTag ` set ?post"
    by simp_all
  have "fix_weight_class example_known_weights three_axes_font
          = weight_class_result three_axes_font example_os2
              (if 0 \<le> defaultValue ?a then \<lfloor>defaultValue ?a\<rfloor> else \<lceil>defaultValue ?a\<rceil>)"
    using fix_weight_class_spec [OF h1, of example_known_weights, THEN conjunct1] fv tg
    by blast
  moreover have "(if 0 \<le> defaultValue ?a then \<lfloor>defaultValue ?a\<rfloor> else \<lceil>defaultValue ?a\<rceil>) = 550"
    by simp
  ultimately have r1: "fix_weight_class example_known_weights three_axes_font
          = weight_class_result three_axes_font example_os2 550"
    by (simp only:)
  have h2: "get_OS2 black_font = Inr example_os2"
    by (simp add: get_OS2_def black_font_def)
  have nf: "tables black_font ''fvar'' = None"
    by (simp add: black_font_def)
  have sn: "font_stylename black_font = ''Black''"
    by (simp add: font_stylename_def black_font_def)
  have kw: "map_of example_known_weights ''Black'' = Some 900"
    by (simp add: example_known_weights_def)
  have r2: "fix_weight_class example_known_weights black_font
          = weight_class_result black_font example_os2 900"
    using fix_weight_class_spec [OF h2, of example_known_weights] nf sn kw by blast
  have h3: "get_OS2 extrabold_italic_font = Inr example_os2"
    by (simp add: get_OS2_def extrabold_italic_font_def)
  have nf3: "tables extrabold_italic_font ''fvar'' = None"
    by (simp add: extrabold_italic_font_def)
  have sn3: "font_stylename extrabold_italic_font = ''ExtraBold Italic''"
    by (simp add: font_stylename_def extrabold_italic_font_def)
  have kw3: "map_of example_known_weights ''ExtraBold'' = Some 800"
    by (simp add: example_known_weights_def)
  have r3: "fix_weight_class example_known_weights extrabold_italic_font
          = weight_class_result extrabold_italic_font example_os2 800"
    using fix_weight_class_spec [OF h3, of example_known_weights] nf3 sn3 kw3 by blast
  from h1 r1 h2 r2 h3 r3 show ?thesis by blast
qed

lemma get_OS2_stylename [simp]: "get_OS2 (f\<lparr>stylename := s\<rparr>) = get_OS2 f"
  by (simp add: get_OS2_def)

lemma set_table_stylename:
  "set_table tag t (f\<lparr>stylename := s\<rparr>) = (set_table tag t f)\<lparr>stylename := s\<rparr>"
  by (simp add: set_table_def)

text \<open>
  C9. For a font whose \<^verbatim>\<open>fvar\<close> table has a \<^verbatim>\<open>wght\<close> axis, the outcome of
  \<^verbatim>\<open>fix_weight_class\<close> does not depend on the style name: replacing the style name by any
  \<open>s\<close> gives the same outcome (up to the style name carried by the font). It is never the
  \<^verbatim>\<open>ValueError\<close> of an unclassifiable style, and with an \<^verbatim>\<open>OS/2\<close> table the call returns,
  having stored the truncated default of the axis.
\<close>

theorem fix_weight_class_wght_axis_total:
  assumes "tables f ''fvar'' = Some (Fvar axes)" and "''wght'' \<in> axisTag ` set axes"
  shows "fix_weight_class known (f\<lparr>stylename := s\<rparr>) \<noteq> Inl ValueError
       \<and> fix_weight_class known (f\<lparr>stylename := s\<rparr>)
           = (case fix_weight_class known f of
                Inl e \<Rightarrow> Inl e
              | Inr (changed, g) \<Rightarrow> Inr (changed, g\<lparr>stylename := s\<rparr>))
       \<and> (\<forall>os2. get_OS2 f = Inr os2 \<longrightarrow>
             (\<exists>v. default_axis_value axes ''wght'' = Some v
                \<and> fix_weight_class known (f\<lparr>stylename := s\<rparr>)
                    = Inr (py_int v \<noteq> usWeightClass os2,
                           set_table ''OS/2'' (OS2 (os2\<lparr>usWeightClass := py_int v\<rparr>))
                             (f\<lparr>stylename := s\<rparr>))))"
proof -
  from default_axis_value_Some [OF assms(2)] obtain v where
    v: "default_axis_value axes ''wght'' = Some v" by blast
  show ?thesis
  proof (cases "get_OS2 f")
    case (Inl e)
    then have "e = KeyError"
      by (auto simp: get_OS2_def split: option.splits table.splits)
    with Inl show ?thesis
      by (simp add: fix_weight_class_def)
  next
    case (Inr os2)
    then show ?thesis
      using assms(1) v
      by (simp add: fix_weight_class_def store_weight_class_def Let_def set_table_stylename)
  qed
qed

theorem fix_weight_class_wght_axis_total_witness:
  "tables variable_font ''fvar''
     = Some (Fvar [\<lparr>axisTag = ''wdth'', defaultValue = 100\<rparr>,
                   \<lparr>axisTag = ''wght'', defaultValue = 1101 / 2\<rparr>])
   \<and> fix_weight_class example_known_weights (variable_font\<lparr>stylename := ''Unclassifiable''\<rparr>)
       \<noteq> Inl ValueError
   \<and> fix_weight_class example_known_weights (variable_font\<lparr>stylename := ''Unclassifiable''\<rparr>)
       = Inr (True,
              set_table ''OS/2'' (OS2 (example_os2\<lparr>usWeightClass := 550\<rparr>))
                (variable_font\<lparr>stylename := ''Unclassifiable''\<rparr>))
   \<and> fix_weight_class example_known_weights
         (black_font\<lparr>stylename := ''Unclassifiable''\<rparr>) = Inl ValueError"
proof -
  let ?axes = "[\<lparr>axisTag = ''wdth'', defaultValue = 100\<rparr>,
                \<lparr>axisTag = ''wght'', defaultValue = 1101 / 2\<rparr>]"
  have fv: "tables variable_font ''fvar'' = Some (Fvar ?axes)"
    by (simp add: variable_font_def)
  have ax: "''wght'' \<in> axisTag ` set ?axes"
    by simp
  have h1: "get_OS2 variable_font = Inr example_os2"
    by (simp add: get_OS2_def variable_font_def)
  note t = fix_weight_class_wght_axis_total
    [OF fv ax, of example_known_weights "''Unclassifiable''"]
  have dv: "default_axis_value ?axes ''wght'' = Some (1101 / 2)"
    by (simp add: default_axis_value_def)
  have pi: "py_int (1101 / 2) = 550"
    by (simp add: py_int_def)
  from t h1 obtain v where v: "default_axis_value ?axes ''wght'' = Some v"
    and r: "fix_weight_class example_known_weights (variable_font\<lparr>stylename := ''Unclassifiable''\<rparr>)
              = Inr (py_int v \<noteq> usWeightClass example_os2,
                     set_table ''OS/2'' (OS2 (example_os2\<lparr>usWeightClass := py_int v\<rparr>))
                       (variable_font\<lparr>stylename := ''Unclassifiable''\<rparr>))"
    by blast
  from v dv have "v = 1101 / 2" by simp
  with r pi have r': "fix_weight_class example_known_weights
             (variable_font\<lparr>stylename := ''Unclassifiable''\<rparr>)
       = Inr (True,
              set_table ''OS/2'' (OS2 (example_os2\<lparr>usWeightClass := 550\<rparr>))
                (variable_font\<lparr>stylename := ''Unclassifiable''\<rparr>))"
    by (simp add: example_os2_def)
  have ne: "fix_weight_class example_known_weights (variable_font\<lparr>stylename := ''Unclassifiable''\<rparr>)
       \<noteq> Inl ValueError"
    using t by blast
  have st: "fix_weight_class example_known_weights
         (black_font\<lparr>stylename := ''Unclassifiable''\<rparr>) = Inl ValueError"
    by (simp add: fix_weight_class_def get_OS2_def black_font_def
        weight_class_from_stylename_def font_stylename_def str_split_def is_space_def
        sorted_weight_names_def WEIGHT_NAMES_def example_known_weights_def AList.delete_eq)
  from fv ne r' st show ?thesis by blast
qed

subsection \<open>Saving if and only if something changed\<close>

lemma fix_loop_saveit:
  "saveit (snd (fix_loop fs self)) \<longleftrightarrow> saveit self \<or> True \<in> set (applied_changes fs (font self))"
proof (induction fs arbitrary: self)
  case Nil
  then show ?case by simp
next
  case (Cons f fs)
  show ?case
  proof (cases "f (font self)")
    case (Pair res ttfont)
    show ?thesis
    proof (cases res)
      case (Inl e)
      with Pair show ?thesis by simp
    next
      case (Inr r)
      with Pair show ?thesis
        by (cases r) (auto simp: Cons.IH Let_def)
    qed
  qed
qed

lemma fix_loop_path:
  "path (snd (fix_loop fs self)) = path self"
proof (induction fs arbitrary: self)
  case Nil
  then show ?case by simp
next
  case (Cons f fs)
  show ?case
  proof (cases "f (font self)")
    case (Pair res ttfont)
    show ?thesis
    proof (cases res)
      case (Inl e)
      with Pair show ?thesis by simp
    next
      case (Inr r)
      with Pair show ?thesis
        by (cases r) (auto simp: Cons.IH Let_def)
    qed
  qed
qed

text \<open>
  C6. After \<^verbatim>\<open>fix()\<close> the flag \<^verbatim>\<open>saveit\<close> is true iff it was true before or one of the
  applied fixes reported a change. \<^verbatim>\<open>__del__\<close> writes the font exactly once, to the path
  followed by \<^verbatim>\<open>.fix\<close>, when the flag is true, and writes nothing when it is false. A new
  object starts with the flag false, so a font on which no fix reported a change is never
  written.
\<close>

theorem FontFixer_saves_iff_changed:
  "saveit (snd (FontFixer_fix self))
     = (saveit self \<or> True \<in> set (applied_changes (fixes self) (font self)))
   \<and> saved (FontFixer_del self)
       = (if saveit self then [(path self @ ''.fix'', font self)] else [])
   \<and> saved (FontFixer_del (snd (FontFixer_fix self)))
       = (if saveit self \<or> True \<in> set (applied_changes (fixes self) (font self))
          then [(path self @ ''.fix'', font (snd (FontFixer_fix self)))] else [])
   \<and> saveit (FontFixer_init ttfont p rep verb kw) = False"
proof -
  have a: "saveit (snd (FontFixer_fix self))
     = (saveit self \<or> True \<in> set (applied_changes (fixes self) (font self)))"
    by (simp add: FontFixer_fix_def fix_loop_saveit)
  have b: "saved (FontFixer_del s)
       = (if saveit s then [(path s @ ''.fix'', font s)] else [])" for s
    by (simp add: FontFixer_del_def Let_def)
  have c: "path (snd (FontFixer_fix self)) = path self"
    by (simp add: FontFixer_fix_def fix_loop_path)
  have d: "saveit (FontFixer_init ttfont p rep verb kw) = False"
    by (simp add: FontFixer_init_def)
  show ?thesis
    using a b [of self] b [of "snd (FontFixer_fix self)"] c d by simp
qed

theorem FontFixer_saves_iff_changed_witness:
  "saved (FontFixer_del (snd (FontFixer_fix (example_fixer [quiet_rule, quiet_rule])))) = []
   \<and> saved (FontFixer_del (snd (FontFixer_fix (example_fixer [quiet_rule, changing_rule, quiet_rule]))))
       = [(''fonts/Example-Black.ttf.fix'', black_font\<lparr>stylename := ''Bold''\<rparr>)]
   \<and> saved (FontFixer_del (snd (FontFixer_fix (example_fixer [quiet_rule, failing_rule, changing_rule]))))
       = []"
proof -
  have i: "saveit (example_fixer fs) = False" "fixes (example_fixer fs) = fs"
     "font (example_fixer fs) = black_font" "path (example_fixer fs) = ''fonts/Example-Black.ttf''" for fs
    by (simp_all add: example_fixer_def FontFixer_init_def)
  have a1: "applied_changes [quiet_rule, quiet_rule] black_font = [False, False]"
    by (simp add: quiet_rule_def)
  have a2: "applied_changes [quiet_rule, changing_rule, quiet_rule] black_font = [False, True, False]"
    by (simp add: quiet_rule_def changing_rule_def)
  have a3: "applied_changes [quiet_rule, failing_rule, changing_rule] black_font = [False]"
    by (simp add: quiet_rule_def failing_rule_def)
  have f2: "font (snd (FontFixer_fix (example_fixer [quiet_rule, changing_rule, quiet_rule])))
      = black_font\<lparr>stylename := ''Bold''\<rparr>"
    by (simp add: FontFixer_fix_def i quiet_rule_def changing_rule_def Let_def)
  note t = FontFixer_saves_iff_changed [THEN conjunct2, THEN conjunct2, THEN conjunct1]
  have "saved (FontFixer_del (snd (FontFixer_fix (example_fixer [quiet_rule, quiet_rule])))) = []"
    using t [of "example_fixer [quiet_rule, quiet_rule]", unfolded i a1] by simp
  moreover have "saved (FontFixer_del (snd (FontFixer_fix (example_fixer [quiet_rule, changing_rule, quiet_rule]))))
       = [(''fonts/Example-Black.ttf.fix'', black_font\<lparr>stylename := ''Bold''\<rparr>)]"
    using t [of "example_fixer [quiet_rule, changing_rule, quiet_rule]", unfolded i a2 f2] by simp
  moreover have "saved (FontFixer_del (snd (FontFixer_fix (example_fixer [quiet_rule, failing_rule, changing_rule]))))
       = []"
    using t [of "example_fixer [quiet_rule, failing_rule, changing_rule]", unfolded i a3] by simp
  ultimately show ?thesis by blast
qed

subsection \<open>COLR repair\<close>

text \<open>
  C7. \<^verbatim>\<open>fix_colr_font\<close> by COLR version. Version 0: the font is returned as it is when
  \<^verbatim>\<open>maxp.numGlyphs\<close> is below 2, and when the glyph at index 1 has no contours. Version 1:
  the font is returned as it is when it has an \<^verbatim>\<open>SVG\<close> table; otherwise the output of
  the rasterizer is returned when it has that table, and the call fails with
  \<^verbatim>\<open>AssertionError\<close> when it has not. Any other version: \<^verbatim>\<open>NotImplementedError\<close>.
\<close>

theorem fix_colr_font_dispatch:
  "(tables f ''COLR'' = Some (COLR 0) \<longrightarrow> tables f ''maxp'' = Some (Maxp n) \<longrightarrow> n < 2 \<longrightarrow>
      fix_colr_font ext f = Inr f)
   \<and> (tables f ''COLR'' = Some (COLR 0) \<longrightarrow> tables f ''maxp'' = Some (Maxp n) \<longrightarrow> 2 \<le> n \<longrightarrow>
        tables f ''glyf'' = Some (Glyf g) \<longrightarrow> 2 \<le> length (glyphOrder f) \<longrightarrow>
        map_of g (glyphOrder f ! 1) = Some 0 \<longrightarrow>
      fix_colr_font ext f = Inr f)
   \<and> (tables f ''COLR'' = Some (COLR 1) \<longrightarrow> has_table ''SVG '' f \<longrightarrow>
      fix_colr_font ext f = Inr f)
   \<and> (tables f ''COLR'' = Some (COLR 1) \<longrightarrow> \<not> has_table ''SVG '' f \<longrightarrow>
        maximum_color ext f = Inr out \<longrightarrow>
      fix_colr_font ext f = (if has_table ''SVG '' out then Inr out else Inl AssertionError))
   \<and> (tables f ''COLR'' = Some (COLR v) \<longrightarrow> v \<noteq> 0 \<longrightarrow> v \<noteq> 1 \<longrightarrow>
      fix_colr_font ext f = Inl NotImplementedError)"
  by (simp add: fix_colr_font_def fix_colr_v0_gid1_def fix_colr_v1_add_svg_def Let_def)

theorem fix_colr_font_dispatch_witness:
  "fix_colr_font example_tools (colr_font 0 1) = Inr (colr_font 0 1)
   \<and> fix_colr_font example_tools (colr_font 0 3) = Inr (colr_font 0 3)
   \<and> fix_colr_font example_tools (colr_font 1 3) = Inl AssertionError
   \<and> fix_colr_font example_tools (colr_font 2 3) = Inl NotImplementedError
   \<and> fix_colr_font example_tools (set_table ''SVG '' Raw (colr_font 1 3))
       = Inr (set_table ''SVG '' Raw (colr_font 1 3))"
proof -
  have c: "tables (colr_font v n) ''COLR'' = Some (COLR v)"
    "tables (colr_font v n) ''maxp'' = Some (Maxp n)"
    "tables (colr_font v n) ''glyf'' = Some (Glyf [(''.notdef'', 2), (''space'', 0), (''A'', 1)])"
    "glyphOrder (colr_font v n) = [''.notdef'', ''space'', ''A'']"
    "\<not> has_table ''SVG '' (colr_font v n)" for v n
    by (simp_all add: colr_font_def has_table_def)
  have s: "tables (set_table ''SVG '' Raw (colr_font 1 3)) ''COLR'' = Some (COLR 1)"
    "has_table ''SVG '' (set_table ''SVG '' Raw (colr_font 1 3))"
    by (simp_all add: colr_font_def has_table_def set_table_def)
  have m: "maximum_color example_tools (colr_font 1 3) = Inr (colr_font 1 3)"
    by (simp add: example_tools_def)
  have "fix_colr_font example_tools (colr_font 0 1) = Inr (colr_font 0 1)"
    using fix_colr_font_dispatch [where f = "colr_font 0 1" and n = 1 and ext = example_tools,
        THEN conjunct1] c by simp
  moreover have "fix_colr_font example_tools (colr_font 0 3) = Inr (colr_font 0 3)"
    using fix_colr_font_dispatch [where f = "colr_font 0 3" and n = 3 and ext = example_tools
        and g = "[(''.notdef'', 2), (''space'', 0), (''A'', 1)]", THEN conjunct2, THEN conjunct1] c
    by simp
  moreover have "fix_colr_font example_tools (colr_font 1 3) = Inl AssertionError"
    using fix_colr_font_dispatch [where f = "colr_font 1 3" and ext = example_tools
        and out = "colr_font 1 3",
        THEN conjunct2, THEN conjunct2, THEN conjunct2, THEN conjunct1] c m
    by simp
  moreover have "fix_colr_font example_tools (colr_font 2 3) = Inl NotImplementedError"
    using fix_colr_font_dispatch [where f = "colr_font 2 3" and ext = example_tools and v = 2,
        THEN conjunct2, THEN conjunct2, THEN conjunct2, THEN conjunct2] c
    by simp
  moreover have "fix_colr_font example_tools (set_table ''SVG '' Raw (colr_font 1 3))
       = Inr (set_table ''SVG '' Raw (colr_font 1 3))"
    using fix_colr_font_dispatch [where f = "set_table ''SVG '' Raw (colr_font 1 3)"
        and ext = example_tools,
        THEN conjunct2, THEN conjunct2, THEN conjunct1] s
    by simp
  ultimately show ?thesis by blast
qed

subsection \<open>Name-record pruning\<close>

lemma getName_mac: "getName names n 1 0 0 = find (is_mac_record n) names"
  by (simp add: getName_def is_mac_record_def [abs_def])

lemma find_Some_filter:
  "find P xs = Some r \<Longrightarrow> \<exists>rest. filter P xs = r # rest"
  by (induction xs) (auto split: if_splits)

lemma find_Some_mem: "find P xs = Some r \<Longrightarrow> r \<in> set xs \<and> P r"
  by (induction xs) (auto split: if_splits)

lemma find_None_filter: "find P xs = None \<Longrightarrow> filter P xs = []"
  by (induction xs) (auto split: if_splits)

lemma filter_remove1_first:
  assumes "find P xs = Some r"
  shows "filter P (remove1 r xs) = tl (filter P xs)"
proof -
  from find_Some_filter [OF assms] obtain rest where "filter P xs = r # rest" by blast
  then show ?thesis by (simp add: filter_remove1)
qed

lemma filter_remove1_other:
  "\<not> Q r \<Longrightarrow> filter Q (remove1 r xs) = filter Q xs"
  by (simp add: filter_remove1 remove1_idem)

lemma length_remove1_mem: "r \<in> set xs \<Longrightarrow> length (remove1 r xs) < length xs"
  using length_pos_if_in_set [of r xs] by (simp add: length_remove1)

lemma subseq_remove1_self: "subseq (remove1 r xs) xs"
  by (induction xs) auto

lemma drop_names_loop_untouched:
  assumes "drop_names_loop keep ns (c, names) = (c', names')"
    and "\<And>r n. Q r \<Longrightarrow> n \<in> set ns \<Longrightarrow> \<not> keep n \<Longrightarrow> \<not> is_mac_record n r"
  shows "filter Q names' = filter Q names"
  using assms
proof (induction ns arbitrary: c names)
  case Nil
  then show ?case by simp
next
  case (Cons n ns)
  show ?case
  proof (cases "keep n")
    case True
    with Cons.prems(1) have "drop_names_loop keep ns (c, names) = (c', names')" by simp
    then show ?thesis using Cons.IH Cons.prems(2) by simp
  next
    case False
    show ?thesis
    proof (cases "find (is_mac_record n) names")
      case None
      with False Cons.prems(1) have "drop_names_loop keep ns (c, names) = (c', names')"
        by (simp add: getName_mac)
      then show ?thesis using Cons.IH Cons.prems(2) by simp
    next
      case (Some r)
      with False Cons.prems(1) have l: "drop_names_loop keep ns (True, remove1 r names) = (c', names')"
        by (simp add: getName_mac)
      have "filter Q names' = filter Q (remove1 r names)"
        using Cons.IH [OF l] Cons.prems(2) by simp
      moreover have "\<not> Q r"
        using find_Some_mem [OF Some] Cons.prems(2) [of r n] False by auto
      ultimately show ?thesis by (simp add: filter_remove1_other)
    qed
  qed
qed

lemma is_mac_record_other: "m \<noteq> n \<Longrightarrow> is_mac_record n r \<Longrightarrow> \<not> is_mac_record m r"
  by (simp add: is_mac_record_def)

lemma drop_names_loop_first:
  assumes "drop_names_loop keep ns (c, names) = (c', names')" and "distinct ns"
  shows "filter (is_mac_record m) names' =
           (if m \<in> set ns \<and> \<not> keep m then tl (filter (is_mac_record m) names)
            else filter (is_mac_record m) names)"
  using assms
proof (induction ns arbitrary: c names)
  case Nil
  then show ?case by simp
next
  case (Cons n ns)
  from Cons.prems(2) have dn: "distinct ns" and nn: "n \<notin> set ns" by simp_all
  show ?case
  proof (cases "keep n")
    case True
    with Cons.prems(1) have l: "drop_names_loop keep ns (c, names) = (c', names')" by simp
    from Cons.IH [OF l dn] True show ?thesis by auto
  next
    case False
    show ?thesis
    proof (cases "find (is_mac_record n) names")
      case None
      with False Cons.prems(1) have l: "drop_names_loop keep ns (c, names) = (c', names')"
        by (simp add: getName_mac)
      from Cons.IH [OF l dn] find_None_filter [OF None] nn show ?thesis by auto
    next
      case (Some r)
      with False Cons.prems(1) have l: "drop_names_loop keep ns (True, remove1 r names) = (c', names')"
        by (simp add: getName_mac)
      note ih = Cons.IH [OF l dn]
      have rn: "is_mac_record n r" using find_Some_mem [OF Some] by simp
      show ?thesis
      proof (cases "m = n")
        case True
        with ih nn False show ?thesis by (simp add: filter_remove1_first [OF Some])
      next
        case neq: False
        then have "\<not> is_mac_record m r" using rn by (rule is_mac_record_other)
        then have "filter (is_mac_record m) (remove1 r names) = filter (is_mac_record m) names"
          by (rule filter_remove1_other)
        with ih neq show ?thesis by simp
      qed
    qed
  qed
qed

lemma drop_names_loop_subseq:
  assumes "drop_names_loop keep ns (c, names) = (c', names')"
  shows "subseq names' names \<and> c' = (c \<or> length names' < length names)"
  using assms
proof (induction ns arbitrary: c names)
  case Nil
  then show ?case by simp
next
  case (Cons n ns)
  show ?case
  proof (cases "keep n")
    case True
    with Cons.prems(1) have "drop_names_loop keep ns (c, names) = (c', names')" by simp
    then show ?thesis by (rule Cons.IH)
  next
    case False
    show ?thesis
    proof (cases "find (is_mac_record n) names")
      case None
      with False Cons.prems(1) have "drop_names_loop keep ns (c, names) = (c', names')"
        by (simp add: getName_mac)
      then show ?thesis by (rule Cons.IH)
    next
      case (Some r)
      with False Cons.prems(1) have l: "drop_names_loop keep ns (True, remove1 r names) = (c', names')"
        by (simp add: getName_mac)
      from Cons.IH [OF l] have s: "subseq names' (remove1 r names)" and c: "c'" by simp_all
      have "subseq (remove1 r names) names" by (rule subseq_remove1_self)
      with s have s': "subseq names' names" by (rule subseq_order.trans)
      from s have "length names' \<le> length (remove1 r names)" by (rule list_emb_length)
      moreover have "length (remove1 r names) < length names"
        using find_Some_mem [OF Some] by (simp add: length_remove1_mem)
      ultimately show ?thesis using s' c by simp
    qed
  qed
qed

lemma set_range255: "set range255 = {n. 0 \<le> n \<and> n < 255}"
proof -
  have "n \<in> int ` {0..<255} \<longleftrightarrow> 0 \<le> n \<and> n < 255" for n
  proof
    assume "n \<in> int ` {0..<255}"
    then show "0 \<le> n \<and> n < 255" by auto
  next
    assume "0 \<le> n \<and> n < 255"
    then have "nat n \<in> {0..<255}" "int (nat n) = n" by auto
    then show "n \<in> int ` {0..<255}" by (metis imageI)
  qed
  then show ?thesis by (auto simp: range255_def)
qed

lemma distinct_range255: "distinct range255"
  by (simp add: range255_def distinct_map)

lemma drop_names_loop_pruned:
  assumes "drop_names_loop keep range255 (False, names) = (c', kept)"
  shows "pruned_by keep names kept \<and> c' = (kept \<noteq> names)"
proof -
  from drop_names_loop_subseq [OF assms] have s: "subseq kept names"
    and c: "c' = (length kept < length names)" by simp_all
  have le: "length kept \<le> length names"
    using s by (rule list_emb_length)
  have "length kept = length names \<Longrightarrow> kept = names"
    using s by (rule subseq_same_length)
  with le have ne: "(kept \<noteq> names) = (length kept < length names)"
    by (cases "length kept = length names") auto
  have k: "filter (is_mac_record n) kept =
             (if 0 \<le> n \<and> n < 255 \<and> \<not> keep n then tl (filter (is_mac_record n) names)
              else filter (is_mac_record n) names)" for n
    using drop_names_loop_first [OF assms distinct_range255, of n]
    by (simp add: set_range255)
  let ?Q = "\<lambda>r. \<not> (platformID r = 1 \<and> platEncID r = 0 \<and> langID r = 0
                         \<and> 0 \<le> nameID r \<and> nameID r < 255 \<and> \<not> keep (nameID r))"
  have u: "filter ?Q kept = filter ?Q names"
  proof (rule drop_names_loop_untouched [OF assms])
    fix r :: name_record and n :: int
    assume "?Q r" "n \<in> set range255" "\<not> keep n"
    then show "\<not> is_mac_record n r"
      by (auto simp: set_range255 is_mac_record_def)
  qed
  from s k u ne c show ?thesis
    unfolding pruned_by_def by blast
qed

text \<open>
  C10. On a font with a \<^verbatim>\<open>name\<close> table, \<^verbatim>\<open>drop_mac_names\<close> and
  \<^verbatim>\<open>drop_superfluous_mac_names\<close> return, and the records they leave satisfy \<open>pruned_by\<close>:
  per name identifier from 0 to 254 (not in \<^verbatim>\<open>keep_ids\<close>, for the second function) only the
  first Macintosh record with encoding 0 and language 0 is removed; Macintosh records with
  an identifier of 255 or more, another language or another encoding, and all records of
  other platforms stay, in their order. The returned flag is true iff a record was removed.
\<close>

theorem mac_name_pruning_frame:
  assumes "get_name f = Inr names"
  shows "(\<exists>kept. drop_mac_names f = Inr (kept \<noteq> names, set_table ''name'' (Name kept) f)
            \<and> pruned_by (\<lambda>n. False) names kept)
       \<and> (\<exists>kept. drop_superfluous_mac_names f
                     = Inr (kept \<noteq> names, set_table ''name'' (Name kept) f)
            \<and> pruned_by (\<lambda>n. n \<in> set keep_ids) names kept)"
proof
  obtain c kept where l: "drop_names_loop (\<lambda>n. False) range255 (False, names) = (c, kept)"
    by (cases "drop_names_loop (\<lambda>n. False) range255 (False, names)")
  from drop_names_loop_pruned [OF l] l assms
  show "\<exists>kept. drop_mac_names f = Inr (kept \<noteq> names, set_table ''name'' (Name kept) f)
            \<and> pruned_by (\<lambda>n. False) names kept"
    by (auto simp: drop_mac_names_def)
next
  obtain c kept where l: "drop_names_loop (\<lambda>n. n \<in> set keep_ids) range255 (False, names) = (c, kept)"
    by (cases "drop_names_loop (\<lambda>n. n \<in> set keep_ids) range255 (False, names)")
  from drop_names_loop_pruned [OF l] l assms
  show "\<exists>kept. drop_superfluous_mac_names f
                     = Inr (kept \<noteq> names, set_table ''name'' (Name kept) f)
            \<and> pruned_by (\<lambda>n. n \<in> set keep_ids) names kept"
    by (auto simp: drop_superfluous_mac_names_def)
qed

theorem mac_name_pruning_frame_witness:
  "get_name names_font = Inr example_names
   \<and> (\<exists>kept. drop_superfluous_mac_names names_font
                = Inr (True, set_table ''name'' (Name kept) names_font)
         \<and> filter (is_mac_record 19) kept = []
         \<and> filter (is_mac_record 15) kept = [mac_name 15]
         \<and> filter (is_mac_record 1) kept = [mac_name 1]
         \<and> filter (is_mac_record 255) kept = [mac_name 255])
   \<and> (\<exists>kept. drop_mac_names names_font = Inr (True, set_table ''name'' (Name kept) names_font)
         \<and> filter (is_mac_record 1) kept = []
         \<and> filter (is_mac_record 15) kept = [mac_name 15]
         \<and> filter (is_mac_record 255) kept = [mac_name 255])"
proof -
  have h: "get_name names_font = Inr example_names"
    by (simp add: get_name_def names_font_def)
  have f: "filter (is_mac_record 19) example_names = [mac_name 19]"
    "filter (is_mac_record 15) example_names = [mac_name 15, mac_name 15]"
    "filter (is_mac_record 1) example_names = [mac_name 1]"
    "filter (is_mac_record 255) example_names = [mac_name 255]"
    by (simp_all add: example_names_def is_mac_record_def mac_name_def)
  have k: "(1::int) \<in> set keep_ids" "(15::int) \<notin> set keep_ids" "(19::int) \<notin> set keep_ids"
    by (simp_all add: keep_ids_def)
  from mac_name_pruning_frame [OF h, THEN conjunct2] obtain kept where
    r: "drop_superfluous_mac_names names_font
          = Inr (kept \<noteq> example_names, set_table ''name'' (Name kept) names_font)"
    and p: "pruned_by (\<lambda>n. n \<in> set keep_ids) example_names kept"
    by blast
  from p have pf: "filter (is_mac_record n) kept =
             (if 0 \<le> n \<and> n < 255 \<and> n \<notin> set keep_ids
              then tl (filter (is_mac_record n) example_names)
              else filter (is_mac_record n) example_names)" for n
    unfolding pruned_by_def by blast
  have s19: "filter (is_mac_record 19) kept = []" using pf [of 19] k f by simp
  have s15: "filter (is_mac_record 15) kept = [mac_name 15]" using pf [of 15] k f by simp
  have s1: "filter (is_mac_record 1) kept = [mac_name 1]" using pf [of 1] k f by simp
  have s255: "filter (is_mac_record 255) kept = [mac_name 255]" using pf [of 255] f by simp
  from s19 f(1) have "kept \<noteq> example_names" by auto
  with r have r': "drop_superfluous_mac_names names_font
          = Inr (True, set_table ''name'' (Name kept) names_font)" by simp
  from mac_name_pruning_frame [OF h, THEN conjunct1] obtain kept2 where
    r2: "drop_mac_names names_font
          = Inr (kept2 \<noteq> example_names, set_table ''name'' (Name kept2) names_font)"
    and p2: "pruned_by (\<lambda>n. False) example_names kept2"
    by blast
  from p2 have pf2: "filter (is_mac_record n) kept2 =
             (if 0 \<le> n \<and> n < 255
              then tl (filter (is_mac_record n) example_names)
              else filter (is_mac_record n) example_names)" for n
    unfolding pruned_by_def by simp
  have t1: "filter (is_mac_record 1) kept2 = []" using pf2 [of 1] f by simp
  have t15: "filter (is_mac_record 15) kept2 = [mac_name 15]" using pf2 [of 15] f by simp
  have t255: "filter (is_mac_record 255) kept2 = [mac_name 255]" using pf2 [of 255] f by simp
  from t1 f(3) have "kept2 \<noteq> example_names" by auto
  with r2 have r2': "drop_mac_names names_font
          = Inr (True, set_table ''name'' (Name kept2) names_font)" by simp
  from h r' s19 s15 s1 s255 r2' t1 t15 t255 show ?thesis by blast
qed

subsection \<open>Vertical metrics of a family\<close>

lemma get_set_table [simp]:
  "get_OS2 (set_table ''OS/2'' (OS2 t) f) = Inr t"
  "get_OS2 (set_table ''hhea'' u f) = get_OS2 f"
  "get_hhea (set_table ''hhea'' (Hhea h) f) = Inr h"
  "get_hhea (set_table ''OS/2'' u f) = get_hhea f"
  "get_head (set_table ''OS/2'' u f) = get_head f"
  "get_head (set_table ''hhea'' u f) = get_head f"
  "stylename (set_table tag u f) = stylename f"
  "glyphOrder (set_table tag u f) = glyphOrder f"
  by (simp_all add: get_OS2_def get_hhea_def get_head_def set_table_def)

lemma glyph_extent_set_table [simp]:
  "glyph_extent (set_table ''OS/2'' u f) = glyph_extent f"
  "glyph_extent (set_table ''hhea'' u f) = glyph_extent f"
  by (simp_all add: glyph_extent_def)

lemma font_stylename_set_table [simp]:
  "font_stylename (set_table tag u f) = font_stylename f"
  by (simp add: font_stylename_def)

lemma has_metric_tablesD:
  assumes "has_metric_tables f"
  obtains os2 hhea head where "get_OS2 f = Inr os2" "get_hhea f = Inr hhea" "get_head f = Inr head"
  using assms
  by (auto simp: has_metric_tables_def vertical_metrics_def glyph_extent_def split: sum.splits)

lemma first_regular_Some:
  "first_regular fs = Some i \<Longrightarrow>
     i < length fs \<and> font_stylename (fs ! i) = ''Regular''
     \<and> (\<forall>j<i. font_stylename (fs ! j) \<noteq> ''Regular'')"
proof (induction fs arbitrary: i)
  case Nil
  then show ?case by simp
next
  case (Cons f fs)
  show ?case
  proof (cases "font_stylename f = ''Regular''")
    case True
    with Cons.prems show ?thesis by simp
  next
    case False
    with Cons.prems obtain k where k: "first_regular fs = Some k" "i = Suc k" by auto
    from Cons.IH [OF k(1)] False k(2) show ?thesis
      by (auto simp: less_Suc_eq_0_disj)
  qed
qed

lemma first_regular_None:
  "first_regular fs = None \<longleftrightarrow> (\<forall>f\<in>set fs. font_stylename f \<noteq> ''Regular'')"
  by (induction fs) auto

lemma src_index_less: "fs \<noteq> [] \<Longrightarrow> src_index fs < length fs"
  by (cases "first_regular fs") (auto simp: src_index_def dest: first_regular_Some)

lemma fold_min_Min: "fold min xs (a::int) = Min (insert a (set xs))"
  using Min.set_eq_fold [of a xs] by simp

lemma fold_max_Max: "fold max xs (a::int) = Max (insert a (set xs))"
  using Max.set_eq_fold [of a xs] by simp

lemma family_extents_ok:
  "\<forall>f\<in>set fs. glyph_extent f \<noteq> None \<Longrightarrow>
     \<exists>es. family_extents fs = Inr es \<and> map glyph_extent fs = map Some es"
proof (induction fs)
  case Nil
  then show ?case by simp
next
  case (Cons f fs)
  then obtain es where es: "family_extents fs = Inr es" "map glyph_extent fs = map Some es"
    by auto
  from Cons.prems obtain head where h: "get_head f = Inr head"
    by (auto simp: glyph_extent_def split: sum.splits)
  then have "glyph_extent f = Some (yMin head, yMax head)"
    by (simp add: glyph_extent_def)
  with es h show ?case by simp
qed

lemma family_bounding_box_ok:
  assumes "fs \<noteq> []" and "\<forall>f\<in>set fs. glyph_extent f \<noteq> None"
  shows "\<exists>lo hi. family_bounding_box fs = Inr (lo, hi)
           \<and> (\<forall>f\<in>set fs. \<exists>a b. glyph_extent f = Some (a, b) \<and> lo \<le> a \<and> b \<le> hi)
           \<and> (\<exists>f\<in>set fs. \<exists>b. glyph_extent f = Some (lo, b))
           \<and> (\<exists>f\<in>set fs. \<exists>a. glyph_extent f = Some (a, hi))"
proof -
  from family_extents_ok [OF assms(2)] obtain es where
    es: "family_extents fs = Inr es" "map glyph_extent fs = map Some es" by blast
  from es(2) assms(1) obtain e es' where e: "es = e # es'" by (cases es) auto
  let ?lo = "Min (fst ` set es)" and ?hi = "Max (snd ` set es)"
  have box: "family_bounding_box fs = Inr (?lo, ?hi)"
    using es(1) e by (simp add: family_bounding_box_def fold_min_Min fold_max_Max)
  have "set (map Some es) = set (map glyph_extent fs)"
    using es(2) by simp
  then have mem: "Some ` set es = glyph_extent ` set fs"
    by (simp only: set_map)
  have fin: "finite (fst ` set es)" "finite (snd ` set es)" "fst ` set es \<noteq> {}" "snd ` set es \<noteq> {}"
    using e by simp_all
  have b1: "\<exists>a b. glyph_extent f = Some (a, b) \<and> ?lo \<le> a \<and> b \<le> ?hi" if "f \<in> set fs" for f
  proof -
    from that have "glyph_extent f \<in> Some ` set es"
      unfolding mem by (rule imageI)
    then obtain x where x: "x \<in> set es" "glyph_extent f = Some x" by (rule imageE)
    then have "?lo \<le> fst x" "snd x \<le> ?hi" by simp_all
    with x(2) show ?thesis by (cases x) simp
  qed
  from Min_in [OF fin(1,3)] obtain x where x: "x \<in> set es" "fst x = ?lo" by auto
  from x(1) have "Some x \<in> glyph_extent ` set fs"
    unfolding mem [symmetric] by (rule imageI)
  then obtain f where f: "f \<in> set fs" "glyph_extent f = Some x"
    by (rule imageE) simp
  from Max_in [OF fin(2,4)] obtain y where y: "y \<in> set es" "snd y = ?hi" by auto
  from y(1) have "Some y \<in> glyph_extent ` set fs"
    unfolding mem [symmetric] by (rule imageI)
  then obtain g where g: "g \<in> set fs" "glyph_extent g = Some y"
    by (rule imageE) simp
  have b2: "\<exists>f\<in>set fs. \<exists>b. glyph_extent f = Some (?lo, b)"
    using f x(2) by (cases x) auto
  have b3: "\<exists>f\<in>set fs. \<exists>a. glyph_extent f = Some (a, ?hi)"
    using g y(2) by (cases y) auto
  from box b1 b2 b3 show ?thesis by blast
qed

lemma bit7_or: "bit (x OR push_bit 7 (1::int)) 7"
  by (simp only: bit_or_iff bit_one_shl simp_thms)

lemma vertical_metrics_Some:
  "vertical_metrics f = Some m \<longleftrightarrow>
     (\<exists>os2 hhea. get_OS2 f = Inr os2 \<and> get_hhea f = Inr hhea
        \<and> m = \<lparr>typoAscender = sTypoAscender os2, typoDescender = sTypoDescender os2,
                typoLineGap = sTypoLineGap os2, winAscent = usWinAscent os2,
                winDescent = usWinDescent os2, hheaAscent = ascent hhea,
                hheaDescent = descent hhea, hheaLineGap = lineGap hhea\<rparr>)"
  by (auto simp: vertical_metrics_def split: sum.splits)

lemma copy_vertical_metrics_ok:
  assumes "vertical_metrics src = Some m" and "get_OS2 dst = Inr dos2" and "get_hhea dst = Inr dhhea"
  shows "\<exists>r ros2. copy_vertical_metrics src dst = Inr r \<and> vertical_metrics r = Some m
           \<and> get_OS2 r = Inr ros2 \<and> fsSelection ros2 = fsSelection dos2
           \<and> glyph_extent r = glyph_extent dst \<and> stylename r = stylename dst
           \<and> glyphOrder r = glyphOrder dst"
proof -
  from assms(1) obtain sos2 shhea where s: "get_OS2 src = Inr sos2" "get_hhea src = Inr shhea"
    and m: "m = \<lparr>typoAscender = sTypoAscender sos2, typoDescender = sTypoDescender sos2,
                typoLineGap = sTypoLineGap sos2, winAscent = usWinAscent sos2,
                winDescent = usWinDescent sos2, hheaAscent = ascent shhea,
                hheaDescent = descent shhea, hheaLineGap = lineGap shhea\<rparr>"
    unfolding vertical_metrics_Some by blast
  show ?thesis
    using s assms(2,3)
    by (simp add: copy_vertical_metrics_def vertical_metrics_def m)
qed

lemma harmonize_all_ok:
  assumes "vertical_metrics src = Some m" and "\<forall>f\<in>set fs. vertical_metrics f \<noteq> None"
  shows "\<exists>fs'. harmonize_all src fs = Inr fs' \<and> length fs' = length fs
           \<and> (\<forall>k<length fs. vertical_metrics (fs' ! k) = Some m
                  \<and> typo_metrics_enabled (fs' ! k) = Inr True
                  \<and> glyph_extent (fs' ! k) = glyph_extent (fs ! k)
                  \<and> stylename (fs' ! k) = stylename (fs ! k)
                  \<and> glyphOrder (fs' ! k) = glyphOrder (fs ! k))"
  using assms(2)
proof (induction fs)
  case Nil
  then show ?case by simp
next
  case (Cons f fs)
  then obtain fs' where fs': "harmonize_all src fs = Inr fs'" "length fs' = length fs"
    and rest: "\<forall>k<length fs. vertical_metrics (fs' ! k) = Some m
                  \<and> typo_metrics_enabled (fs' ! k) = Inr True
                  \<and> glyph_extent (fs' ! k) = glyph_extent (fs ! k)
                  \<and> stylename (fs' ! k) = stylename (fs ! k)
                  \<and> glyphOrder (fs' ! k) = glyphOrder (fs ! k)"
    by auto
  from Cons.prems obtain mf where "vertical_metrics f = Some mf" by auto
  then obtain os2 hhea where f: "get_OS2 f = Inr os2" "get_hhea f = Inr hhea"
    unfolding vertical_metrics_Some by blast
  let ?f1 = "set_table ''OS/2'' (OS2 (os2\<lparr>fsSelection := fsSelection os2 OR push_bit 7 1\<rparr>)) f"
  have f1: "get_OS2 ?f1 = Inr (os2\<lparr>fsSelection := fsSelection os2 OR push_bit 7 1\<rparr>)"
    "get_hhea ?f1 = Inr hhea"
    using f by simp_all
  from copy_vertical_metrics_ok [OF assms(1) f1] obtain r ros2 where
    r: "copy_vertical_metrics src ?f1 = Inr r" "vertical_metrics r = Some m"
       "get_OS2 r = Inr ros2"
       "fsSelection ros2 = fsSelection (os2\<lparr>fsSelection := fsSelection os2 OR push_bit 7 1\<rparr>)"
       "glyph_extent r = glyph_extent ?f1" "stylename r = stylename ?f1"
       "glyphOrder r = glyphOrder ?f1"
    by blast
  from r(4) have "bit (fsSelection ros2) 7"
    using bit7_or [of "fsSelection os2"] by (simp del: push_bit_of_1)
  with r(3) have en: "typo_metrics_enabled r = Inr True"
    by (simp add: typo_metrics_enabled_def)
  have step: "harmonize_all src (f # fs) = Inr (r # fs')"
    using f r(1) fs'(1) by simp
  have "\<forall>k<length (f # fs). vertical_metrics ((r # fs') ! k) = Some m
                  \<and> typo_metrics_enabled ((r # fs') ! k) = Inr True
                  \<and> glyph_extent ((r # fs') ! k) = glyph_extent ((f # fs) ! k)
                  \<and> stylename ((r # fs') ! k) = stylename ((f # fs) ! k)
                  \<and> glyphOrder ((r # fs') ! k) = glyphOrder ((f # fs) ! k)"
  proof (intro allI impI)
    fix k assume "k < length (f # fs)"
    then show "vertical_metrics ((r # fs') ! k) = Some m
                  \<and> typo_metrics_enabled ((r # fs') ! k) = Inr True
                  \<and> glyph_extent ((r # fs') ! k) = glyph_extent ((f # fs) ! k)
                  \<and> stylename ((r # fs') ! k) = stylename ((f # fs) ! k)
                  \<and> glyphOrder ((r # fs') ! k) = glyphOrder ((f # fs) ! k)"
      using r(2,5,6,7) en rest by (cases k) simp_all
  qed
  with step fs'(2) show ?case by simp
qed

lemma nth_list_update_cases:
  "k < length xs \<Longrightarrow> P ((xs[i := x]) ! k) \<longleftrightarrow> (if k = i then P x else P (xs ! k))"
  by (simp add: nth_list_update)

text \<open>
  C2. On a non-empty family whose fonts all have \<^verbatim>\<open>OS/2\<close>, \<^verbatim>\<open>hhea\<close> and \<^verbatim>\<open>head\<close> tables,
  \<^verbatim>\<open>fix_vertical_metrics\<close> returns a family of the same length in which every font has
  the same eight vertical-metric values \<open>m\<close>, those of the source font after the call, and
  has bit 7 of \<^verbatim>\<open>fsSelection\<close> set. The source font is the first font styled \<^verbatim>\<open>Regular\<close>,
  else the first font. \<open>winAscent m\<close> is the largest \<^verbatim>\<open>yMax\<close> and \<open>winDescent m\<close> the
  absolute value of the smallest \<^verbatim>\<open>yMin\<close> of the family, so they bound the extents of
  every font; the hhea values equal the typo values, which are those of the source font
  when it had bit 7 set and its win values (descent negated, line gap 0) when it had not.
\<close>

theorem fix_vertical_metrics_harmonizes:
  assumes "ttFonts \<noteq> []" and "\<forall>f\<in>set ttFonts. has_metric_tables f"
  shows "\<exists>fonts' m sm.
           fix_vertical_metrics ttFonts = Inr fonts'
         \<and> length fonts' = length ttFonts
         \<and> (\<forall>f'\<in>set fonts'. vertical_metrics f' = Some m \<and> typo_metrics_enabled f' = Inr True)
         \<and> vertical_metrics (fonts' ! src_index ttFonts) = Some m
         \<and> (\<forall>f\<in>set ttFonts. \<exists>lo hi. glyph_extent f = Some (lo, hi)
                \<and> hi \<le> winAscent m \<and> - winDescent m \<le> lo)
         \<and> (\<exists>f\<in>set ttFonts. \<exists>lo. glyph_extent f = Some (lo, winAscent m))
         \<and> (\<exists>f\<in>set ttFonts. \<exists>lo hi. glyph_extent f = Some (lo, hi)
                \<and> winDescent m = \<bar>lo\<bar>)
         \<and> (\<forall>k<length ttFonts. glyph_extent (fonts' ! k) = glyph_extent (ttFonts ! k)
                \<and> stylename (fonts' ! k) = stylename (ttFonts ! k))
         \<and> hheaAscent m = typoAscender m \<and> hheaDescent m = typoDescender m
         \<and> hheaLineGap m = typoLineGap m
         \<and> vertical_metrics (ttFonts ! src_index ttFonts) = Some sm
         \<and> (if typo_metrics_enabled (ttFonts ! src_index ttFonts) = Inr True
             then typoAscender m = typoAscender sm \<and> typoDescender m = typoDescender sm
                  \<and> typoLineGap m = typoLineGap sm
             else typoAscender m = winAscent sm \<and> typoDescender m = - winDescent sm
                  \<and> typoLineGap m = 0)
         \<and> (if \<exists>f\<in>set ttFonts. font_stylename f = ''Regular''
             then font_stylename (ttFonts ! src_index ttFonts) = ''Regular''
             else src_index ttFonts = 0)"
proof -
  define i where "i = src_index ttFonts"
  define s where "s = ttFonts ! i"
  have i: "i < length ttFonts"
    unfolding i_def using assms(1) by (rule src_index_less)
  then have s_in: "s \<in> set ttFonts"
    unfolding s_def by (rule nth_mem)
  with assms(2) have "has_metric_tables s" by blast
  then obtain os2 hhea head where
    t: "get_OS2 s = Inr os2" "get_hhea s = Inr hhea" "get_head s = Inr head"
    by (rule has_metric_tablesD)
  define en where "en = bit (fsSelection os2) 7"
  define os2a where "os2a =
     (if \<not> en then os2\<lparr>fsSelection := fsSelection os2 OR push_bit 7 1,
                          sTypoAscender := usWinAscent os2,
                          sTypoDescender := - usWinDescent os2,
                          sTypoLineGap := 0\<rparr>
      else os2)"
  define hheaa where "hheaa = hhea\<lparr>ascent := sTypoAscender os2a,
                      descent := sTypoDescender os2a,
                      lineGap := sTypoLineGap os2a\<rparr>"
  define s1 where "s1 = set_table ''hhea'' (Hhea hheaa) (set_table ''OS/2'' (OS2 os2a) s)"
  define fs1 where "fs1 = ttFonts[i := s1]"
  have ge_all: "\<forall>f\<in>set ttFonts. glyph_extent f \<noteq> None"
    using assms(2) by (simp add: has_metric_tables_def)
  have vm_all: "\<forall>f\<in>set ttFonts. vertical_metrics f \<noteq> None"
    using assms(2) by (simp add: has_metric_tables_def)
  have ge_s1: "glyph_extent s1 = glyph_extent s"
    by (simp add: s1_def)
  have ext1: "map glyph_extent fs1 = map glyph_extent ttFonts"
    using i ge_s1 unfolding fs1_def s_def
    by (simp add: map_update list_update_same_conv)
  have fs1_ne: "fs1 \<noteq> []" using assms(1) by (simp add: fs1_def)
  have "glyph_extent ` set fs1 = glyph_extent ` set ttFonts"
    using ext1 by (metis set_map)
  then have ge1: "\<forall>f\<in>set fs1. glyph_extent f \<noteq> None"
    using ge_all by (metis image_iff)
  from family_bounding_box_ok [OF fs1_ne ge1] obtain lo hi where
    box: "family_bounding_box fs1 = Inr (lo, hi)"
    and bnd1: "\<forall>f\<in>set fs1. \<exists>a b. glyph_extent f = Some (a, b) \<and> lo \<le> a \<and> b \<le> hi"
    and lo1: "\<exists>f\<in>set fs1. \<exists>b. glyph_extent f = Some (lo, b)"
    and hi1: "\<exists>f\<in>set fs1. \<exists>a. glyph_extent f = Some (a, hi)"
    by blast
  define os2b where "os2b = os2a\<lparr>usWinAscent := hi, usWinDescent := \<bar>lo\<bar>\<rparr>"
  define s2 where "s2 = set_table ''OS/2'' (OS2 os2b) s1"
  define fs2 where "fs2 = fs1[i := s2]"
  define m where "m = \<lparr>typoAscender = sTypoAscender os2b, typoDescender = sTypoDescender os2b,
                typoLineGap = sTypoLineGap os2b, winAscent = usWinAscent os2b,
                winDescent = usWinDescent os2b, hheaAscent = ascent hheaa,
                hheaDescent = descent hheaa, hheaLineGap = lineGap hheaa\<rparr>"
  define sm where "sm = \<lparr>typoAscender = sTypoAscender os2, typoDescender = sTypoDescender os2,
                typoLineGap = sTypoLineGap os2, winAscent = usWinAscent os2,
                winDescent = usWinDescent os2, hheaAscent = ascent hhea,
                hheaDescent = descent hhea, hheaLineGap = lineGap hhea\<rparr>"
  have run: "fix_vertical_metrics ttFonts = harmonize_all s2 fs2"
    using assms(1) t [unfolded s_def i_def] box [unfolded fs1_def s1_def hheaa_def os2a_def en_def s_def i_def]
    by (simp add: fix_vertical_metrics_def typo_metrics_enabled_def Let_def s2_def fs2_def
        fs1_def s1_def hheaa_def os2b_def os2a_def en_def s_def i_def)
  have vm_s2: "vertical_metrics s2 = Some m"
    by (simp add: vertical_metrics_def s2_def s1_def m_def)
  have fs2_eq: "fs2 = ttFonts[i := s2]"
    by (simp add: fs2_def fs1_def)
  have len2: "length fs2 = length ttFonts"
    by (simp add: fs2_eq)
  have vm_fs2: "\<forall>f\<in>set fs2. vertical_metrics f \<noteq> None"
  proof
    fix f assume "f \<in> set fs2"
    then have "f = s2 \<or> f \<in> set ttFonts"
      unfolding fs2_eq using set_update_subset_insert [of ttFonts i s2] by auto
    then show "vertical_metrics f \<noteq> None"
      using vm_s2 vm_all by auto
  qed
  from harmonize_all_ok [OF vm_s2 vm_fs2] obtain fonts' where
    h: "harmonize_all s2 fs2 = Inr fonts'" "length fonts' = length fs2"
    and each: "\<forall>k<length fs2. vertical_metrics (fonts' ! k) = Some m
                  \<and> typo_metrics_enabled (fonts' ! k) = Inr True
                  \<and> glyph_extent (fonts' ! k) = glyph_extent (fs2 ! k)
                  \<and> stylename (fonts' ! k) = stylename (fs2 ! k)
                  \<and> glyphOrder (fonts' ! k) = glyphOrder (fs2 ! k)"
    by blast
  have s2_same: "glyph_extent s2 = glyph_extent s" "stylename s2 = stylename s"
    by (simp_all add: s2_def s1_def)
  have fs2_nth: "glyph_extent (fs2 ! k) = glyph_extent (ttFonts ! k)
                 \<and> stylename (fs2 ! k) = stylename (ttFonts ! k)" if "k < length ttFonts" for k
    using that s2_same unfolding fs2_eq s_def by (cases "k = i") simp_all
  have c1: "fix_vertical_metrics ttFonts = Inr fonts'"
    using run h(1) by simp
  have c2: "length fonts' = length ttFonts"
    using h(2) len2 by simp
  have c3: "\<forall>f'\<in>set fonts'. vertical_metrics f' = Some m \<and> typo_metrics_enabled f' = Inr True"
  proof
    fix f' assume "f' \<in> set fonts'"
    then obtain k where "k < length fonts'" "fonts' ! k = f'"
      unfolding in_set_conv_nth by blast
    with each h(2) show "vertical_metrics f' = Some m \<and> typo_metrics_enabled f' = Inr True"
      by auto
  qed
  have c4: "vertical_metrics (fonts' ! src_index ttFonts) = Some m"
    using each i len2 unfolding i_def by simp
  have wa: "winAscent m = hi" and wd: "winDescent m = \<bar>lo\<bar>"
    by (simp_all add: m_def os2b_def)
  have img: "glyph_extent ` set fs1 = glyph_extent ` set ttFonts"
    using ext1 by (metis set_map)
  have c5: "\<forall>f\<in>set ttFonts. \<exists>a b. glyph_extent f = Some (a, b)
                \<and> b \<le> winAscent m \<and> - winDescent m \<le> a"
  proof
    fix f assume "f \<in> set ttFonts"
    then have "glyph_extent f \<in> glyph_extent ` set fs1"
      unfolding img by (rule imageI)
    then obtain g where g: "g \<in> set fs1" "glyph_extent f = glyph_extent g"
      by (rule imageE)
    from bnd1 g(1) obtain a b where "glyph_extent g = Some (a, b)" "lo \<le> a" "b \<le> hi"
      by blast
    then show "\<exists>a b. glyph_extent f = Some (a, b) \<and> b \<le> winAscent m \<and> - winDescent m \<le> a"
      using g(2) wa wd by auto
  qed
  have c6: "\<exists>f\<in>set ttFonts. \<exists>a. glyph_extent f = Some (a, winAscent m)"
  proof -
    from hi1 obtain g a where g: "g \<in> set fs1" "glyph_extent g = Some (a, hi)" by blast
    from g(1) have "glyph_extent g \<in> glyph_extent ` set ttFonts"
      unfolding img [symmetric] by (rule imageI)
    then obtain f where "f \<in> set ttFonts" "glyph_extent g = glyph_extent f"
      by (rule imageE)
    with g(2) wa show ?thesis by auto
  qed
  have c7: "\<exists>f\<in>set ttFonts. \<exists>a b. glyph_extent f = Some (a, b) \<and> winDescent m = \<bar>a\<bar>"
  proof -
    from lo1 obtain g b where g: "g \<in> set fs1" "glyph_extent g = Some (lo, b)" by blast
    from g(1) have "glyph_extent g \<in> glyph_extent ` set ttFonts"
      unfolding img [symmetric] by (rule imageI)
    then obtain f where "f \<in> set ttFonts" "glyph_extent g = glyph_extent f"
      by (rule imageE)
    with g(2) wd show ?thesis by auto
  qed
  have c8: "\<forall>k<length ttFonts. glyph_extent (fonts' ! k) = glyph_extent (ttFonts ! k)
                \<and> stylename (fonts' ! k) = stylename (ttFonts ! k)"
    using each fs2_nth len2 by simp
  have c9: "hheaAscent m = typoAscender m" "hheaDescent m = typoDescender m"
    "hheaLineGap m = typoLineGap m"
    by (simp_all add: m_def hheaa_def os2b_def)
  have c10: "vertical_metrics (ttFonts ! src_index ttFonts) = Some sm"
    using t unfolding s_def i_def by (simp add: vertical_metrics_def sm_def)
  have c11: "(if typo_metrics_enabled (ttFonts ! src_index ttFonts) = Inr True
             then typoAscender m = typoAscender sm \<and> typoDescender m = typoDescender sm
                  \<and> typoLineGap m = typoLineGap sm
             else typoAscender m = winAscent sm \<and> typoDescender m = - winDescent sm
                  \<and> typoLineGap m = 0)"
    using t unfolding s_def i_def
    by (simp add: typo_metrics_enabled_def m_def sm_def os2b_def os2a_def en_def)
  have c12: "(if \<exists>f\<in>set ttFonts. font_stylename f = ''Regular''
             then font_stylename (ttFonts ! src_index ttFonts) = ''Regular''
             else src_index ttFonts = 0)"
  proof (cases "first_regular ttFonts")
    case None
    then have "\<forall>f\<in>set ttFonts. font_stylename f \<noteq> ''Regular''"
      by (simp only: first_regular_None)
    then have "\<not> (\<exists>f\<in>set ttFonts. font_stylename f = ''Regular'')"
      by blast
    moreover have "src_index ttFonts = 0"
      using None by (simp add: src_index_def)
    ultimately show ?thesis by simp
  next
    case (Some j)
    from first_regular_Some [OF Some] have "j < length ttFonts"
      "font_stylename (ttFonts ! j) = ''Regular''" by simp_all
    moreover from this have "\<exists>f\<in>set ttFonts. font_stylename f = ''Regular''"
      using nth_mem by blast
    ultimately show ?thesis using Some by (simp add: src_index_def)
  qed
  show ?thesis
    by (rule exI [of _ fonts'], rule exI [of _ m], rule exI [of _ sm])
       (intro conjI c1 c2 c3 c4 c5 c6 c7 c8 c9 c10 c11 c12)
qed

theorem fix_vertical_metrics_harmonizes_witness:
  "example_family \<noteq> []
   \<and> list_all has_metric_tables example_family
   \<and> (\<exists>fonts' m. fix_vertical_metrics example_family = Inr fonts'
         \<and> length fonts' = 3
         \<and> map vertical_metrics fonts' = [Some m, Some m, Some m]
         \<and> map typo_metrics_enabled fonts' = [Inr True, Inr True, Inr True]
         \<and> winAscent m = 1100 \<and> winDescent m = 300
         \<and> typoAscender m = 1000 \<and> typoDescender m = - 200 \<and> typoLineGap m = 0
         \<and> hheaAscent m = 1000 \<and> hheaDescent m = - 200 \<and> hheaLineGap m = 0)"
proof -
  have h1: "example_family \<noteq> []"
    by (simp add: example_family_def)
  have vm: "vertical_metrics (family_font style sel lo hi)
      = Some \<lparr>typoAscender = 800, typoDescender = - 200, typoLineGap = 100,
              winAscent = hi, winDescent = - lo,
              hheaAscent = hi, hheaDescent = lo, hheaLineGap = 0\<rparr>" for style sel lo hi
    by (simp add: vertical_metrics_def get_OS2_def get_hhea_def family_font_def example_os2_def)
  have ge: "glyph_extent (family_font style sel lo hi) = Some (lo, hi)" for style sel lo hi
    by (simp add: glyph_extent_def get_head_def family_font_def)
  have h2: "\<forall>f\<in>set example_family. has_metric_tables f"
    by (simp add: example_family_def has_metric_tables_def vm ge)
  then have h2': "list_all has_metric_tables example_family"
    by (simp add: list_all_iff)
  have si: "src_index example_family = 1"
    by (simp add: src_index_def example_family_def font_stylename_def family_font_def)
  have en: "typo_metrics_enabled (example_family ! 1) = Inr False"
    by (simp add: example_family_def typo_metrics_enabled_def get_OS2_def family_font_def)
  have len: "length example_family = 3"
    by (simp add: example_family_def)
  from fix_vertical_metrics_harmonizes [OF h1 h2] obtain fonts' m sm where
    r: "fix_vertical_metrics example_family = Inr fonts'"
    and l: "length fonts' = length example_family"
    and a: "\<forall>f'\<in>set fonts'. vertical_metrics f' = Some m \<and> typo_metrics_enabled f' = Inr True"
    and b: "\<forall>f\<in>set example_family. \<exists>lo hi. glyph_extent f = Some (lo, hi)
                \<and> hi \<le> winAscent m \<and> - winDescent m \<le> lo"
    and t: "\<exists>f\<in>set example_family. \<exists>lo. glyph_extent f = Some (lo, winAscent m)"
    and d: "\<exists>f\<in>set example_family. \<exists>lo hi. glyph_extent f = Some (lo, hi)
                \<and> winDescent m = \<bar>lo\<bar>"
    and hh: "hheaAscent m = typoAscender m" "hheaDescent m = typoDescender m"
            "hheaLineGap m = typoLineGap m"
    and s: "vertical_metrics (example_family ! src_index example_family) = Some sm"
    and ty: "(if typo_metrics_enabled (example_family ! src_index example_family) = Inr True
             then typoAscender m = typoAscender sm \<and> typoDescender m = typoDescender sm
                  \<and> typoLineGap m = typoLineGap sm
             else typoAscender m = winAscent sm \<and> typoDescender m = - winDescent sm
                  \<and> typoLineGap m = 0)"
    by blast
  from l len have l3: "length fonts' = 3" by simp
  then obtain f0 f1 f2 where fs: "fonts' = [f0, f1, f2]"
    by (cases fonts'; cases "tl fonts'"; cases "tl (tl fonts')") auto
  from a fs have mv: "map vertical_metrics fonts' = [Some m, Some m, Some m]"
    and me: "map typo_metrics_enabled fonts' = [Inr True, Inr True, Inr True]"
    by simp_all
  from s [unfolded si] have "sm = \<lparr>typoAscender = 800, typoDescender = - 200, typoLineGap = 100,
              winAscent = 1000, winDescent = 200,
              hheaAscent = 1000, hheaDescent = - 200, hheaLineGap = 0\<rparr>"
    by (simp add: example_family_def vm)
  with ty [unfolded si] en have typo: "typoAscender m = 1000" "typoDescender m = - 200" "typoLineGap m = 0"
    by simp_all
  from b have "1100 \<le> winAscent m" "300 \<le> winDescent m"
    by (simp_all add: example_family_def ge)
  moreover from t have "winAscent m \<in> {900, 1000, 1100}"
    by (auto simp: example_family_def ge)
  moreover from d have "winDescent m \<in> {250, 200, 300}"
    by (auto simp: example_family_def ge)
  ultimately have win: "winAscent m = 1100" "winDescent m = 300"
    by auto
  from h1 h2' r l3 mv me win typo hh show ?thesis
    by (intro conjI exI [of _ fonts'] exI [of _ m]) simp_all
qed

subsection \<open>Idempotence of the single-font rules\<close>

lemma set_table_twice [simp]: "set_table tag t (set_table tag u f) = set_table tag t f"
  by (simp add: set_table_def)

lemma set_table_same: "tables f tag = Some t \<Longrightarrow> set_table tag t f = f"
  by (simp add: set_table_def fun_upd_idem)

lemma get_OS2_Inr: "get_OS2 f = Inr t \<longleftrightarrow> tables f ''OS/2'' = Some (OS2 t)"
  by (auto simp: get_OS2_def split: option.splits table.splits)

lemma get_head_Inr: "get_head f = Inr t \<longleftrightarrow> tables f ''head'' = Some (Head t)"
  by (auto simp: get_head_def split: option.splits table.splits)

lemma get_post_Inr: "get_post f = Inr t \<longleftrightarrow> tables f ''post'' = Some (Post t)"
  by (auto simp: get_post_def split: option.splits table.splits)

lemma get_name_Inr: "get_name f = Inr t \<longleftrightarrow> tables f ''name'' = Some (Name t)"
  by (auto simp: get_name_def split: option.splits table.splits)

lemma idem_remove_tables: "remove_tables (remove_tables f tbls) tbls = remove_tables f tbls"
proof -
  have "UNWANTED_TABLES \<inter> dom (tables (remove_tables f tbls)) \<inter> requested_tables tbls = {}"
    unfolding dom_remove_tables by blast
  then show ?thesis
    by (simp add: remove_tables_def [of "remove_tables f tbls"] Let_def)
qed

lemma idem_fix_fs_type:
  assumes "fix_fs_type f = Inr (c, f1)"
  shows "fix_fs_type f1 = Inr (False, f1)"
proof -
  from assms obtain os2 where o: "get_OS2 f = Inr os2"
    and f1: "f1 = set_table ''OS/2'' (OS2 (os2\<lparr>fsType := 0\<rparr>)) f"
    by (auto simp: fix_fs_type_def Let_def split: sum.splits)
  show ?thesis
    unfolding f1 by (simp add: fix_fs_type_def)
qed

lemma fix_fs_selection_value:
  assumes "get_OS2 f = Inr os2"
  shows "fix_fs_selection f =
     (let tok = set (str_split (font_stylename f));
          sel = (((fsSelection os2 AND push_bit 7 1)
                 OR (if ''Italic'' \<in> tok then push_bit 0 1 else 0))
                 OR (if ''Bold'' \<in> tok then push_bit 5 1 else 0))
                 OR (if ''Bold'' \<notin> tok \<and> ''Italic'' \<notin> tok then push_bit 6 1 else 0)
      in Inr (fsSelection os2 \<noteq> sel, set_table ''OS/2'' (OS2 (os2\<lparr>fsSelection := sel\<rparr>)) f))"
  using assms by (simp add: fix_fs_selection_def Let_def)

lemma fs_selection_fixpoint:
  fixes old :: int and i b r :: bool
  assumes "sel = (((old AND push_bit 7 1) OR (if i then push_bit 0 1 else 0))
                 OR (if b then push_bit 5 1 else 0)) OR (if r then push_bit 6 1 else 0)"
  shows "(((sel AND push_bit 7 1) OR (if i then push_bit 0 1 else 0))
                 OR (if b then push_bit 5 1 else 0)) OR (if r then push_bit 6 1 else 0) = sel"
proof (rule bit_eqI)
  fix n
  have s: "bit sel k \<longleftrightarrow> (k = 7 \<and> bit old 7) \<or> (k = 0 \<and> i) \<or> (k = 5 \<and> b) \<or> (k = 6 \<and> r)" for k
    unfolding assms by (rule fs_selection_bits)
  have "bit sel 7 = bit old 7"
    unfolding s by simp
  then show "bit ((((sel AND push_bit 7 1) OR (if i then push_bit 0 1 else 0))
                 OR (if b then push_bit 5 1 else 0)) OR (if r then push_bit 6 1 else 0)) n
             = bit sel n"
    unfolding fs_selection_bits unfolding s by simp
qed

lemma idem_fix_fs_selection:
  assumes "fix_fs_selection f = Inr (c, f1)"
  shows "fix_fs_selection f1 = Inr (False, f1)"
proof -
  from assms obtain os2 where o: "get_OS2 f = Inr os2"
    by (auto simp: fix_fs_selection_def Let_def split: sum.splits)
  define tok where "tok = set (str_split (font_stylename f))"
  define sel where "sel = (((fsSelection os2 AND push_bit 7 1)
                 OR (if ''Italic'' \<in> tok then push_bit 0 1 else 0))
                 OR (if ''Bold'' \<in> tok then push_bit 5 1 else 0))
                 OR (if ''Bold'' \<notin> tok \<and> ''Italic'' \<notin> tok then push_bit 6 1 else 0)"
  from assms fix_fs_selection_value [OF o]
  have f1: "f1 = set_table ''OS/2'' (OS2 (os2\<lparr>fsSelection := sel\<rparr>)) f"
    by (simp add: Let_def sel_def tok_def del: push_bit_of_1)
  have o1: "get_OS2 f1 = Inr (os2\<lparr>fsSelection := sel\<rparr>)"
    unfolding f1 by simp
  have st: "font_stylename f1 = font_stylename f"
    unfolding f1 by simp
  have fp: "(((sel AND push_bit 7 1)
                 OR (if ''Italic'' \<in> tok then push_bit 0 1 else 0))
                 OR (if ''Bold'' \<in> tok then push_bit 5 1 else 0))
                 OR (if ''Bold'' \<notin> tok \<and> ''Italic'' \<notin> tok then push_bit 6 1 else 0) = sel"
    by (rule fs_selection_fixpoint) (rule sel_def)
  show ?thesis
    using fix_fs_selection_value [OF o1]
    unfolding st Let_def tok_def [symmetric]
    by (simp add: fp f1 del: push_bit_of_1)
qed

lemma idem_fix_mac_style:
  assumes "fix_mac_style f = Inr (c, f1)"
  shows "fix_mac_style f1 = Inr (False, f1)"
proof -
  from assms obtain head where o: "get_head f = Inr head"
    by (auto simp: fix_mac_style_def Let_def split: sum.splits)
  with assms show ?thesis
    by (auto simp: fix_mac_style_def Let_def get_head_def set_table_def font_stylename_def)
qed

lemma idem_fix_italic_angle:
  assumes "fix_italic_angle f = Inr (c, f1)"
  shows "fix_italic_angle f1 = Inr (False, f1)"
  using assms
  by (auto simp: fix_italic_angle_def Let_def get_post_def set_table_def font_stylename_def
      split: sum.splits if_splits option.splits table.splits)

lemma weight_class_from_stylename_cases:
  "weight_class_from_stylename known f os2 = Inl KeyError
   \<or> weight_class_from_stylename known f os2 = Inl ValueError
   \<or> (\<exists>w. (\<forall>g o2. font_stylename g = font_stylename f \<longrightarrow>
              weight_class_from_stylename known g o2 = Inr (store_weight_class g o2 w)))"
  by (auto simp: weight_class_from_stylename_def Let_def split: option.splits)

lemma store_weight_class_again:
  "store_weight_class f os2 w = (c, f1) \<Longrightarrow>
     store_weight_class f1 (os2\<lparr>usWeightClass := w\<rparr>) w = (False, f1)
     \<and> get_OS2 f1 = Inr (os2\<lparr>usWeightClass := w\<rparr>)
     \<and> tables f1 ''fvar'' = tables f ''fvar''
     \<and> font_stylename f1 = font_stylename f"
  by (auto simp: store_weight_class_def Let_def set_table_def get_OS2_def font_stylename_def)

lemma idem_fix_weight_class:
  assumes "fix_weight_class known f = Inr (c, f1)"
  shows "fix_weight_class known f1 = Inr (False, f1)"
proof -
  from assms obtain os2 where o: "get_OS2 f = Inr os2"
    by (auto simp: fix_weight_class_def split: sum.splits)
  show ?thesis
  proof (cases "\<exists>axes v. tables f ''fvar'' = Some (Fvar axes) \<and> default_axis_value axes ''wght'' = Some v")
    case True
    then obtain axes v where a: "tables f ''fvar'' = Some (Fvar axes)"
      "default_axis_value axes ''wght'' = Some v" by blast
    with assms o have "store_weight_class f os2 (py_int v) = (c, f1)"
      by (simp add: fix_weight_class_def)
    from store_weight_class_again [OF this] a show ?thesis
      by (simp add: fix_weight_class_def)
  next
    case False
    with assms o have r: "weight_class_from_stylename known f os2 = Inr (c, f1)"
      and nf: "tables f ''fvar'' = None
               \<or> (\<exists>axes. tables f ''fvar'' = Some (Fvar axes) \<and> default_axis_value axes ''wght'' = None)"
      by (auto simp: fix_weight_class_def split: option.splits table.splits)
    from weight_class_from_stylename_cases [of known f os2] r obtain w where
      w: "\<And>g o2. font_stylename g = font_stylename f \<Longrightarrow>
              weight_class_from_stylename known g o2 = Inr (store_weight_class g o2 w)"
      by auto
    from w [of f os2] r have "store_weight_class f os2 w = (c, f1)" by simp
    from store_weight_class_again [OF this]
    have s: "store_weight_class f1 (os2\<lparr>usWeightClass := w\<rparr>) w = (False, f1)"
       "get_OS2 f1 = Inr (os2\<lparr>usWeightClass := w\<rparr>)"
       "tables f1 ''fvar'' = tables f ''fvar''"
       "font_stylename f1 = font_stylename f"
      by simp_all
    from nf show ?thesis
      using s w [OF s(4), of "os2\<lparr>usWeightClass := w\<rparr>"]
      by (auto simp: fix_weight_class_def)
  qed
qed

lemma get_hmtx_set_table [simp]:
  "get_hmtx (set_table ''OS/2'' u f) = get_hmtx f"
  "get_hmtx (set_table ''post'' u f) = get_hmtx f"
  "get_hhea (set_table ''post'' u f) = get_hhea f"
  "get_post (set_table ''post'' (Post p) f) = Inr p"
  "get_post (set_table ''OS/2'' u f) = get_post f"
  "get_OS2 (set_table ''post'' u f) = get_OS2 f"
  by (simp_all add: get_hmtx_def get_hhea_def get_post_def get_OS2_def set_table_def)

lemma set_table_commute:
  "tag \<noteq> tag' \<Longrightarrow> set_table tag t (set_table tag' u f) = set_table tag' u (set_table tag t f)"
  by (auto simp: set_table_def fun_upd_twist)

lemma idem_fixed_pitch_proportional:
  assumes "fixed_pitch_proportional f = Inr ((c, msgs), f1)"
  shows "fixed_pitch_proportional f1 = Inr ((False, []), f1)"
proof -
  from assms obtain post os2 where p: "get_post f = Inr post" "get_OS2 f = Inr os2"
    by (auto simp: fixed_pitch_proportional_def split: sum.splits)
  with assms have f1: "f1 = set_table ''OS/2'' (OS2 (os2\<lparr>panose := (panose os2)\<lparr>bProportion := 0\<rparr>\<rparr>))
                          (set_table ''post'' (Post (post\<lparr>isFixedPitch := 0\<rparr>)) f)"
    by (simp add: fixed_pitch_proportional_def Let_def)
  show ?thesis
    unfolding f1
    by (simp add: fixed_pitch_proportional_def Let_def set_table_commute [of "''post''" "''OS/2''"])
qed

lemma record_same:
  "bProportion p = v \<Longrightarrow> p\<lparr>bProportion := v\<rparr> = p"
  "xAvgCharWidth os2 = a \<Longrightarrow> os2\<lparr>xAvgCharWidth := a\<rparr> = os2"
  "isFixedPitch post = i \<Longrightarrow> post\<lparr>isFixedPitch := i\<rparr> = post"
  by auto

lemma monospace_panose_idem: "monospace_panose (monospace_panose p) = monospace_panose p"
  by (simp add: monospace_panose_def)

lemma fixed_pitch_monospace_total:
  assumes "get_post f = Inr post" "get_OS2 f = Inr os2" "get_hhea f = Inr hhea"
    and "positive_widths gm \<noteq> []" and "advanceWidthMax hhea = py_max (positive_widths gm)"
  shows "\<exists>msgs. fixed_pitch_monospace f gm =
           Inr ((isFixedPitch post \<noteq> 1 \<or> monospace_panose (panose os2) \<noteq> panose os2
                   \<or> average_width gm \<noteq> xAvgCharWidth os2, msgs),
                set_table ''OS/2''
                  (OS2 (os2\<lparr>panose := monospace_panose (panose os2),
                             xAvgCharWidth := average_width gm\<rparr>))
                  (set_table ''post'' (Post (post\<lparr>isFixedPitch := 1\<rparr>)) f))"
proof -
  have p: "monospace_panose (panose os2) \<noteq> panose os2 \<longleftrightarrow>
           (bFamilyType (panose os2) = 2 \<and> bProportion (panose os2) \<noteq> 9)
         \<or> ((bFamilyType (panose os2) = 3 \<or> bFamilyType (panose os2) = 5)
              \<and> bProportion (panose os2) \<noteq> 3)
         \<or> bFamilyType (panose os2) = 0"
    by (cases "panose os2") (auto simp: monospace_panose_def)
  show ?thesis
    unfolding p
    using assms
    by (auto simp: fixed_pitch_monospace_def Let_def positive_widths_def average_width_def
        monospace_panose_def record_same)
qed

lemma sum_cases_Inr: "(case x of Inl e \<Rightarrow> Inl e | Inr y \<Rightarrow> g y) = Inr z \<Longrightarrow> \<exists>y. x = Inr y \<and> g y = Inr z"
  by (cases x) auto

lemma fixed_pitch_monospace_Inr:
  assumes "fixed_pitch_monospace f gm = Inr (r, f1)"
  shows "\<exists>post os2 hhea. get_post f = Inr post \<and> get_OS2 f = Inr os2 \<and> get_hhea f = Inr hhea
           \<and> positive_widths gm \<noteq> []
           \<and> advanceWidthMax hhea = py_max (positive_widths gm)"
proof -
  obtain post where p: "get_post f = Inr post"
    using assms by (cases "get_post f") (simp_all add: fixed_pitch_monospace_def)
  obtain os2 where o: "get_OS2 f = Inr os2"
    using assms p by (cases "get_OS2 f") (simp_all add: fixed_pitch_monospace_def Let_def split: prod.splits)
  have w: "positive_widths gm \<noteq> []"
    using assms p o
    by (auto simp: fixed_pitch_monospace_def Let_def positive_widths_def
        split: prod.splits if_splits option.splits)
  obtain hhea where h: "get_hhea f = Inr hhea"
    using assms p o w
    by (cases "get_hhea f")
       (auto simp: fixed_pitch_monospace_def Let_def positive_widths_def
          split: prod.splits if_splits option.splits)
  have "advanceWidthMax hhea = py_max (positive_widths gm)"
    using assms p o w h
    by (auto simp: fixed_pitch_monospace_def Let_def positive_widths_def
        split: prod.splits if_splits option.splits)
  with p o w h show ?thesis by blast
qed

lemma idem_fixed_pitch_monospace:
  assumes "fixed_pitch_monospace f gm = Inr ((c, msgs), f1)"
  shows "\<exists>msgs'. fixed_pitch_monospace f1 gm = Inr ((False, msgs'), f1)"
proof -
  from fixed_pitch_monospace_Inr [OF assms] obtain post os2 hhea where
    t: "get_post f = Inr post" "get_OS2 f = Inr os2" "get_hhea f = Inr hhea"
    and w: "positive_widths gm \<noteq> []" "advanceWidthMax hhea = py_max (positive_widths gm)"
    by blast
  define os2' where "os2' = os2\<lparr>panose := monospace_panose (panose os2),
                             xAvgCharWidth := average_width gm\<rparr>"
  define post' where "post' = post\<lparr>isFixedPitch := 1\<rparr>"
  from fixed_pitch_monospace_total [OF t w] assms
  have f1: "f1 = set_table ''OS/2'' (OS2 os2') (set_table ''post'' (Post post') f)"
    by (auto simp: os2'_def post'_def)
  have t1: "get_post f1 = Inr post'" "get_OS2 f1 = Inr os2'" "get_hhea f1 = Inr hhea"
    unfolding f1 using t by simp_all
  from fixed_pitch_monospace_total [OF t1 w] obtain msgs' where
    r: "fixed_pitch_monospace f1 gm =
           Inr ((isFixedPitch post' \<noteq> 1 \<or> monospace_panose (panose os2') \<noteq> panose os2'
                   \<or> average_width gm \<noteq> xAvgCharWidth os2', msgs'),
                set_table ''OS/2''
                  (OS2 (os2'\<lparr>panose := monospace_panose (panose os2'),
                             xAvgCharWidth := average_width gm\<rparr>))
                  (set_table ''post'' (Post (post'\<lparr>isFixedPitch := 1\<rparr>)) f1))"
    by blast
  have a: "os2'\<lparr>panose := monospace_panose (panose os2'), xAvgCharWidth := average_width gm\<rparr> = os2'"
    by (simp add: os2'_def monospace_panose_idem)
  have b: "post'\<lparr>isFixedPitch := 1\<rparr> = post'"
    by (simp add: post'_def)
  have c: "\<not> (isFixedPitch post' \<noteq> 1 \<or> monospace_panose (panose os2') \<noteq> panose os2'
                   \<or> average_width gm \<noteq> xAvgCharWidth os2')"
    by (simp add: os2'_def post'_def monospace_panose_idem)
  have d: "set_table ''OS/2'' (OS2 os2') (set_table ''post'' (Post post') f1) = f1"
    unfolding f1
    by (simp add: set_table_commute [of "''post''" "''OS/2''"])
  from r show ?thesis
    unfolding a b using c d by auto
qed

lemma idem_fix_isFixedPitch:
  assumes "fix_isFixedPitch f = Inr ((c, msgs), f1)"
  shows "\<exists>msgs'. fix_isFixedPitch f1 = Inr ((False, msgs'), f1)"
proof -
  from assms obtain gm where g: "get_hmtx f = Inr gm"
    by (cases "get_hmtx f") (simp_all add: fix_isFixedPitch_def)
  with assms obtain ws where ws: "sample_widths gm uppercase_glyphs = Inr ws"
    by (cases "sample_widths gm uppercase_glyphs") (simp_all add: fix_isFixedPitch_def)
  show ?thesis
  proof (cases "length (remdups ws) = 1")
    case True
    with assms g ws have m: "fixed_pitch_monospace f gm = Inr ((c, msgs), f1)"
      by (simp add: fix_isFixedPitch_def)
    from fixed_pitch_monospace_Inr [OF m] obtain post os2 hhea where
      t: "get_post f = Inr post" "get_OS2 f = Inr os2" "get_hhea f = Inr hhea"
      and w: "positive_widths gm \<noteq> []" "advanceWidthMax hhea = py_max (positive_widths gm)"
      by blast
    from fixed_pitch_monospace_total [OF t w] m have "get_hmtx f1 = Inr gm"
      using g by auto
    with idem_fixed_pitch_monospace [OF m] ws True show ?thesis
      by (simp add: fix_isFixedPitch_def)
  next
    case False
    with assms g ws have m: "fixed_pitch_proportional f = Inr ((c, msgs), f1)"
      by (simp add: fix_isFixedPitch_def)
    then obtain post os2 where "get_post f = Inr post" "get_OS2 f = Inr os2"
      by (auto simp: fixed_pitch_proportional_def split: sum.splits)
    with m g have "get_hmtx f1 = Inr gm"
      by (auto simp: fixed_pitch_proportional_def Let_def)
    with idem_fixed_pitch_proportional [OF m] ws False show ?thesis
      by (simp add: fix_isFixedPitch_def)
  qed
qed

lemma range255_unfold: "range255 = 0 # map int [1..<255]"
  by (simp add: range255_def upt_conv_Cons)

lemma drop_names_loop_nothing:
  "\<forall>n\<in>set ns. \<not> keep n \<longrightarrow> find (is_mac_record n) names = None \<Longrightarrow>
     drop_names_loop keep ns (c, names) = (c, names)"
  by (induction ns) (auto simp: getName_mac)

lemma distinct_map_filter_le1:
  "distinct (map k xs) \<Longrightarrow> length (filter (\<lambda>x. k x = v) xs) \<le> 1"
proof (induction xs)
  case Nil
  then show ?case by simp
next
  case (Cons x xs)
  show ?case
  proof (cases "k x = v")
    case True
    from Cons.prems have "k x \<notin> k ` set xs" by simp
    with True have "\<forall>y\<in>set xs. k y \<noteq> v" by blast
    then have "filter (\<lambda>x. k x = v) xs = []"
      by (simp add: filter_empty_conv)
    with True show ?thesis by simp
  next
    case False
    with Cons show ?thesis by simp
  qed
qed

lemma single_mac_records_le1:
  assumes "single_mac_records keep f" and "get_name f = Inr names"
    and "0 \<le> n" and "n < 255" and "\<not> keep n"
  shows "length (filter (is_mac_record n) names) \<le> 1"
proof -
  let ?Q = "\<lambda>r. platformID r = 1 \<and> platEncID r = 0 \<and> langID r = 0
                          \<and> 0 \<le> nameID r \<and> nameID r < 255 \<and> \<not> keep (nameID r)"
  from assms(1,2) have "distinct (map nameID (filter ?Q names))"
    by (simp add: single_mac_records_def)
  then have "length (filter (\<lambda>r. nameID r = n) (filter ?Q names)) \<le> 1"
    by (rule distinct_map_filter_le1)
  moreover have "filter (\<lambda>r. nameID r = n) (filter ?Q names) = filter (is_mac_record n) names"
    using assms(3,4,5) by (auto simp: is_mac_record_def intro: filter_cong)
  ultimately show ?thesis by simp
qed

lemma filter_Nil_find: "filter P xs = [] \<Longrightarrow> find P xs = None"
  by (simp add: find_None_iff filter_empty_conv)

lemma idem_drop_names:
  assumes "drop_names_loop keep range255 (False, names) = (c, kept)"
    and "\<And>n. 0 \<le> n \<Longrightarrow> n < 255 \<Longrightarrow> \<not> keep n \<Longrightarrow>
           length (filter (is_mac_record n) names) \<le> 1"
  shows "drop_names_loop keep range255 (False, kept) = (False, kept)"
proof (rule drop_names_loop_nothing, intro ballI impI)
  fix n assume n: "n \<in> set range255" "\<not> keep n"
  then have r: "0 \<le> n" "n < 255" by (simp_all add: set_range255)
  from drop_names_loop_first [OF assms(1) distinct_range255, of n] n
  have "filter (is_mac_record n) kept = tl (filter (is_mac_record n) names)" by simp
  moreover from assms(2) [OF r n(2)] have "tl (filter (is_mac_record n) names) = []"
    by (cases "filter (is_mac_record n) names") simp_all
  ultimately show "find (is_mac_record n) kept = None"
    by (simp add: filter_Nil_find)
qed

lemma get_name_set_table [simp]: "get_name (set_table ''name'' (Name ns) f) = Inr ns"
  by (simp add: get_name_def set_table_def)

lemma idem_drop_mac_names:
  assumes "drop_mac_names f = Inr (c, f1)" and "single_mac_records (\<lambda>n. False) f"
  shows "drop_mac_names f1 = Inr (False, f1)"
proof -
  from assms(1) obtain names where g: "get_name f = Inr names"
    by (cases "get_name f") (simp_all add: drop_mac_names_def)
  obtain c' kept where l: "drop_names_loop (\<lambda>n. False) range255 (False, names) = (c', kept)"
    by (cases "drop_names_loop (\<lambda>n. False) range255 (False, names)")
  with assms(1) g have f1: "f1 = set_table ''name'' (Name kept) f"
    by (simp add: drop_mac_names_def)
  from idem_drop_names [OF l] single_mac_records_le1 [OF assms(2) g]
  have "drop_names_loop (\<lambda>n. False) range255 (False, kept) = (False, kept)" by blast
  then show ?thesis
    unfolding f1 by (simp add: drop_mac_names_def)
qed

lemma idem_drop_superfluous_mac_names:
  assumes "drop_superfluous_mac_names f = Inr (c, f1)"
    and "single_mac_records (\<lambda>n. n \<in> set keep_ids) f"
  shows "drop_superfluous_mac_names f1 = Inr (False, f1)"
proof -
  from assms(1) obtain names where g: "get_name f = Inr names"
    by (cases "get_name f") (simp_all add: drop_superfluous_mac_names_def)
  obtain c' kept where
    l: "drop_names_loop (\<lambda>n. n \<in> set keep_ids) range255 (False, names) = (c', kept)"
    by (cases "drop_names_loop (\<lambda>n. n \<in> set keep_ids) range255 (False, names)")
  with assms(1) g have f1: "f1 = set_table ''name'' (Name kept) f"
    by (simp add: drop_superfluous_mac_names_def)
  from idem_drop_names [OF l] single_mac_records_le1 [OF assms(2) g]
  have "drop_names_loop (\<lambda>n. n \<in> set keep_ids) range255 (False, kept) = (False, kept)" by blast
  then show ?thesis
    unfolding f1 by (simp add: drop_superfluous_mac_names_def)
qed

text \<open>
  The condition on the name table is exact: when some pruned name identifier has two
  Macintosh records, the first call leaves one of them behind and the second call removes
  a record and returns true.
\<close>

lemma not_distinct_map_filter:
  "\<not> distinct (map k xs) \<Longrightarrow> \<exists>v. 2 \<le> length (filter (\<lambda>x. k x = v) xs)"
proof (induction xs)
  case Nil
  then show ?case by simp
next
  case (Cons x xs)
  show ?case
  proof (cases "k x \<in> k ` set xs")
    case True
    then obtain y where "y \<in> set xs" "k y = k x" by auto
    then have "filter (\<lambda>z. k z = k x) xs \<noteq> []"
      by (auto simp: filter_empty_conv)
    then have "1 \<le> length (filter (\<lambda>z. k z = k x) xs)"
      by (cases "filter (\<lambda>z. k z = k x) xs") simp_all
    then have "2 \<le> length (filter (\<lambda>z. k z = k x) (x # xs))" by simp
    then show ?thesis by (rule exI)
  next
    case False
    with Cons.prems have "\<not> distinct (map k xs)" by simp
    from Cons.IH [OF this] obtain v where "2 \<le> length (filter (\<lambda>x. k x = v) xs)" by (rule exE)
    then have "2 \<le> length (filter (\<lambda>z. k z = v) (x # xs))" by simp
    then show ?thesis by (rule exI)
  qed
qed

lemma drop_names_loop_again:
  assumes "drop_names_loop keep range255 (False, names) = (c, kept)"
    and "0 \<le> n" and "n < 255" and "\<not> keep n"
    and "2 \<le> length (filter (is_mac_record n) names)"
  shows "\<exists>kept2. drop_names_loop keep range255 (False, kept) = (True, kept2)
           \<and> filter (is_mac_record n) kept \<noteq> []"
proof -
  obtain c2 kept2 where l2: "drop_names_loop keep range255 (False, kept) = (c2, kept2)"
    by (cases "drop_names_loop keep range255 (False, kept)")
  have n: "n \<in> set range255" using assms(2,3) by (simp add: set_range255)
  from drop_names_loop_first [OF assms(1) distinct_range255, of n] n assms(4)
  have k1: "filter (is_mac_record n) kept = tl (filter (is_mac_record n) names)" by simp
  from drop_names_loop_first [OF l2 distinct_range255, of n] n assms(4)
  have k2: "filter (is_mac_record n) kept2 = tl (filter (is_mac_record n) kept)" by simp
  from k1 assms(5) have pos: "1 \<le> length (filter (is_mac_record n) kept)" by simp
  with k2 have "length (filter (is_mac_record n) kept2) < length (filter (is_mac_record n) kept)"
    by simp
  then have "kept2 \<noteq> kept" by auto
  with drop_names_loop_pruned [OF l2] have "c2 = True" by simp
  moreover from pos have "filter (is_mac_record n) kept \<noteq> []" by auto
  ultimately show ?thesis using l2 by simp
qed

lemma not_single_mac_records:
  assumes "\<not> single_mac_records keep f" and "get_name f = Inr names"
  shows "\<exists>n. 0 \<le> n \<and> n < 255 \<and> \<not> keep n \<and> 2 \<le> length (filter (is_mac_record n) names)"
proof -
  let ?Q = "\<lambda>r. platformID r = 1 \<and> platEncID r = 0 \<and> langID r = 0
                          \<and> 0 \<le> nameID r \<and> nameID r < 255 \<and> \<not> keep (nameID r)"
  from assms have "\<not> distinct (map nameID (filter ?Q names))"
    by (simp add: single_mac_records_def)
  from not_distinct_map_filter [OF this] obtain n where
    n: "2 \<le> length (filter (\<lambda>r. nameID r = n) (filter ?Q names))" by (rule exE)
  then have "filter (\<lambda>r. nameID r = n) (filter ?Q names) \<noteq> []" by auto
  then obtain r where "r \<in> set names" "?Q r" "nameID r = n"
    by (auto simp: filter_empty_conv)
  then have b: "0 \<le> n" "n < 255" "\<not> keep n" by auto
  then have "filter (\<lambda>r. nameID r = n) (filter ?Q names) = filter (is_mac_record n) names"
    by (auto simp: is_mac_record_def intro: filter_cong)
  with n b show ?thesis by auto
qed

lemma drop_mac_names_again:
  assumes "drop_mac_names f = Inr (c, f1)" and "\<not> single_mac_records (\<lambda>n. False) f"
  shows "\<exists>f2 names1 r. drop_mac_names f1 = Inr (True, f2) \<and> get_name f1 = Inr names1
           \<and> r \<in> set names1 \<and> platformID r = 1"
proof -
  from assms(1) obtain names where g: "get_name f = Inr names"
    by (cases "get_name f") (simp_all add: drop_mac_names_def)
  obtain c' kept where l: "drop_names_loop (\<lambda>n. False) range255 (False, names) = (c', kept)"
    by (cases "drop_names_loop (\<lambda>n. False) range255 (False, names)")
  with assms(1) g have f1: "f1 = set_table ''name'' (Name kept) f"
    by (simp add: drop_mac_names_def)
  from not_single_mac_records [OF assms(2) g] obtain n where
    n: "0 \<le> n" "n < 255" "2 \<le> length (filter (is_mac_record n) names)" by auto
  from drop_names_loop_again [OF l n(1,2) _ n(3)] obtain kept2 where
    k: "drop_names_loop (\<lambda>n. False) range255 (False, kept) = (True, kept2)"
       "filter (is_mac_record n) kept \<noteq> []" by auto
  from k(2) obtain r where r: "r \<in> set kept" "is_mac_record n r"
    by (auto simp: filter_empty_conv)
  have "drop_mac_names f1 = Inr (True, set_table ''name'' (Name kept2) f1)"
    unfolding f1 using k(1) by (simp add: drop_mac_names_def)
  moreover have "get_name f1 = Inr kept" unfolding f1 by simp
  ultimately show ?thesis using r by (auto simp: is_mac_record_def)
qed

lemma drop_superfluous_mac_names_again:
  assumes "drop_superfluous_mac_names f = Inr (c, f1)"
    and "\<not> single_mac_records (\<lambda>n. n \<in> set keep_ids) f"
  shows "\<exists>f2. drop_superfluous_mac_names f1 = Inr (True, f2)"
proof -
  from assms(1) obtain names where g: "get_name f = Inr names"
    by (cases "get_name f") (simp_all add: drop_superfluous_mac_names_def)
  obtain c' kept where
    l: "drop_names_loop (\<lambda>n. n \<in> set keep_ids) range255 (False, names) = (c', kept)"
    by (cases "drop_names_loop (\<lambda>n. n \<in> set keep_ids) range255 (False, names)")
  with assms(1) g have f1: "f1 = set_table ''name'' (Name kept) f"
    by (simp add: drop_superfluous_mac_names_def)
  from not_single_mac_records [OF assms(2) g] obtain n where
    n: "0 \<le> n" "n < 255" "n \<notin> set keep_ids" "2 \<le> length (filter (is_mac_record n) names)"
    by auto
  from drop_names_loop_again [OF l n] obtain kept2 where
    k: "drop_names_loop (\<lambda>n. n \<in> set keep_ids) range255 (False, kept) = (True, kept2)"
    by auto
  have "drop_superfluous_mac_names f1 = Inr (True, set_table ''name'' (Name kept2) f1)"
    unfolding f1 using k by (simp add: drop_superfluous_mac_names_def)
  then show ?thesis by (rule exI)
qed

lemma in_encoded_glyphs:
  "g \<in> set (encoded_glyphs tbls) \<longleftrightarrow>
     (\<exists>t\<in>set tbls. \<exists>d code. cmap t = Some d \<and> (code, g) \<in> set d)"
proof (induction tbls)
  case Nil
  show ?case by (simp add: encoded_glyphs_def)
next
  case (Cons t tbls)
  have h: "g \<in> set (case cmap t of None \<Rightarrow> [] | Some m \<Rightarrow> map snd m)
           \<longleftrightarrow> (\<exists>d code. cmap t = Some d \<and> (code, g) \<in> set d)"
    by (cases "cmap t") force+
  have "g \<in> set (encoded_glyphs (t # tbls)) \<longleftrightarrow>
          g \<in> set (case cmap t of None \<Rightarrow> [] | Some m \<Rightarrow> map snd m)
          \<or> g \<in> set (encoded_glyphs tbls)"
    by (simp add: encoded_glyphs_def)
  then show ?case
    unfolding h Cons.IH by auto
qed

lemma update_mem_same: "(k, v) \<in> set (AList.update k v al)"
  by (induction al) auto

lemma update_mem_other: "k' \<noteq> k \<Longrightarrow> (k', g) \<in> set al \<Longrightarrow> (k', g) \<in> set (AList.update k v al)"
  by (induction al) auto

lemma pua_loop_None:
  "pua_loop U k order None = Inr m \<Longrightarrow> set order \<inter> set U = {}"
  by (induction order arbitrary: k) (auto split: if_splits)

lemma pua_loop_Some:
  "\<exists>d1. pua_loop U k order (Some d) = Inr (Some d1)
     \<and> (\<forall>j<length order. order ! j \<in> set U \<longrightarrow> (0xF0000 + k + int j, order ! j) \<in> set d1)
     \<and> (\<forall>code g. (code, g) \<in> set d \<longrightarrow>
            (\<forall>j<length order. order ! j \<in> set U \<longrightarrow> code \<noteq> 0xF0000 + k + int j) \<longrightarrow>
            (code, g) \<in> set d1)"
proof (induction order arbitrary: k d)
  case Nil
  show ?case by simp
next
  case (Cons glyph rest)
  show ?case
  proof (cases "glyph \<in> set U")
    case True
    let ?d' = "AList.update (0xF0000 + k) glyph d"
    from Cons.IH [of "k + 1" ?d'] obtain d1 where
      r: "pua_loop U (k + 1) rest (Some ?d') = Inr (Some d1)"
      and a: "\<forall>j<length rest. rest ! j \<in> set U \<longrightarrow> (0xF0000 + (k + 1) + int j, rest ! j) \<in> set d1"
      and b: "\<forall>code g. (code, g) \<in> set ?d' \<longrightarrow>
            (\<forall>j<length rest. rest ! j \<in> set U \<longrightarrow> code \<noteq> 0xF0000 + (k + 1) + int j) \<longrightarrow>
            (code, g) \<in> set d1"
      by blast
    have run: "pua_loop U k (glyph # rest) (Some d) = Inr (Some d1)"
      using True r by simp
    have here: "(0xF0000 + k, glyph) \<in> set d1"
      using b update_mem_same [of "0xF0000 + k" glyph d] by simp
    have a': "(0xF0000 + k + int j, (glyph # rest) ! j) \<in> set d1"
      if "j < length (glyph # rest)" "(glyph # rest) ! j \<in> set U" for j
    proof (cases j)
      case 0
      with here show ?thesis by simp
    next
      case (Suc j')
      with that a have "(0xF0000 + (k + 1) + int j', rest ! j') \<in> set d1" by simp
      with Suc show ?thesis by (simp add: algebra_simps)
    qed
    have b': "(code, g) \<in> set d1"
      if "(code, g) \<in> set d"
        "\<forall>j<length (glyph # rest). (glyph # rest) ! j \<in> set U \<longrightarrow> code \<noteq> 0xF0000 + k + int j"
      for code g
    proof -
      from that(2) [rule_format, of 0] True have ne: "code \<noteq> 0xF0000 + k" by simp
      from update_mem_other [OF ne that(1)] have "(code, g) \<in> set ?d'" .
      moreover have "\<forall>j<length rest. rest ! j \<in> set U \<longrightarrow> code \<noteq> 0xF0000 + (k + 1) + int j"
      proof (intro allI impI)
        fix j assume "j < length rest" "rest ! j \<in> set U"
        with that(2) [rule_format, of "Suc j"] show "code \<noteq> 0xF0000 + (k + 1) + int j"
          by (simp add: algebra_simps)
      qed
      ultimately show ?thesis using b by blast
    qed
    from run a' b' show ?thesis by blast
  next
    case False
    from Cons.IH [of "k + 1" d] obtain d1 where
      r: "pua_loop U (k + 1) rest (Some d) = Inr (Some d1)"
      and a: "\<forall>j<length rest. rest ! j \<in> set U \<longrightarrow> (0xF0000 + (k + 1) + int j, rest ! j) \<in> set d1"
      and b: "\<forall>code g. (code, g) \<in> set d \<longrightarrow>
            (\<forall>j<length rest. rest ! j \<in> set U \<longrightarrow> code \<noteq> 0xF0000 + (k + 1) + int j) \<longrightarrow>
            (code, g) \<in> set d1"
      by blast
    have run: "pua_loop U k (glyph # rest) (Some d) = Inr (Some d1)"
      using False r by simp
    have a': "(0xF0000 + k + int j, (glyph # rest) ! j) \<in> set d1"
      if "j < length (glyph # rest)" "(glyph # rest) ! j \<in> set U" for j
    proof (cases j)
      case 0
      with that(2) False show ?thesis by simp
    next
      case (Suc j')
      with that a have "(0xF0000 + (k + 1) + int j', rest ! j') \<in> set d1" by simp
      with Suc show ?thesis by (simp add: algebra_simps)
    qed
    have b': "(code, g) \<in> set d1"
      if "(code, g) \<in> set d"
        "\<forall>j<length (glyph # rest). (glyph # rest) ! j \<in> set U \<longrightarrow> code \<noteq> 0xF0000 + k + int j"
      for code g
    proof -
      have "\<forall>j<length rest. rest ! j \<in> set U \<longrightarrow> code \<noteq> 0xF0000 + (k + 1) + int j"
      proof (intro allI impI)
        fix j assume "j < length rest" "rest ! j \<in> set U"
        with that(2) [rule_format, of "Suc j"] show "code \<noteq> 0xF0000 + (k + 1) + int j"
          by (simp add: algebra_simps)
      qed
      with that(1) b show ?thesis by blast
    qed
    from run a' b' show ?thesis by blast
  qed
qed

lemma update_first_target:
  "find P xs = Some t \<Longrightarrow> g t \<in> set (update_first P g xs)"
  by (induction xs) (auto split: if_splits)

lemma update_first_others:
  "x \<in> set xs \<Longrightarrow> find P xs \<noteq> Some x \<Longrightarrow> x \<in> set (update_first P g xs)"
  by (induction xs) (auto split: if_splits)

lemma update_first_none:
  "find P xs = None \<Longrightarrow> update_first P g xs = xs"
  by (induction xs) (auto split: if_splits)

lemma getcmap_find:
  "getcmap tbls 3 10 = find (\<lambda>t. cmap_platformID t = 3 \<and> cmap_platEncID t = 10) tbls"
  by (simp add: getcmap_def)

lemma pua_tail:
  assumes "find P tbls1 = Some t4" and "cmap t4 = Some d0"
    and "pua_loop U 0 order (Some d0) = Inr (Some d1)"
    and "\<forall>g\<in>set order. g \<in> set U
            \<or> (\<exists>t\<in>set tbls1. \<exists>d code. cmap t = Some d \<and> (code, g) \<in> set d
                  \<and> (t = t4 \<longrightarrow> (\<forall>j<length order. order ! j \<in> set U \<longrightarrow> code \<noteq> 0xF0000 + int j)))"
  shows "\<forall>g\<in>set order.
           g \<in> set (encoded_glyphs (update_first P (\<lambda>t. t\<lparr>cmap := Some d1\<rparr>) tbls1))"
proof
  fix g assume g: "g \<in> set order"
  let ?tbls2 = "update_first P (\<lambda>t. t\<lparr>cmap := Some d1\<rparr>) tbls1"
  have tgt: "t4\<lparr>cmap := Some d1\<rparr> \<in> set ?tbls2"
    using assms(1) by (rule update_first_target)
  from pua_loop_Some [of U 0 order d0] assms(3) have
    a: "\<forall>j<length order. order ! j \<in> set U \<longrightarrow> (0xF0000 + int j, order ! j) \<in> set d1"
    and b: "\<forall>code g. (code, g) \<in> set d0 \<longrightarrow>
            (\<forall>j<length order. order ! j \<in> set U \<longrightarrow> code \<noteq> 0xF0000 + int j) \<longrightarrow> (code, g) \<in> set d1"
    by auto
  have via: "g \<in> set (encoded_glyphs ?tbls2)" if "(code, g) \<in> set d1" for code
    unfolding in_encoded_glyphs
    using tgt that by (intro bexI [of _ "t4\<lparr>cmap := Some d1\<rparr>"] exI [of _ d1] exI [of _ code]) simp_all
  show "g \<in> set (encoded_glyphs ?tbls2)"
  proof (cases "g \<in> set U")
    case True
    from g obtain j where j: "j < length order" "order ! j = g"
      unfolding in_set_conv_nth by blast
    with a True have "(0xF0000 + int j, g) \<in> set d1" by auto
    then show ?thesis by (rule via)
  next
    case False
    with assms(4) g obtain t d code where
      t: "t \<in> set tbls1" "cmap t = Some d" "(code, g) \<in> set d"
         "t = t4 \<longrightarrow> (\<forall>j<length order. order ! j \<in> set U \<longrightarrow> code \<noteq> 0xF0000 + int j)"
      by blast
    show ?thesis
    proof (cases "t = t4")
      case True
      with t assms(2) have "(code, g) \<in> set d0"
        "\<forall>j<length order. order ! j \<in> set U \<longrightarrow> code \<noteq> 0xF0000 + int j" by simp_all
      with b have "(code, g) \<in> set d1" by blast
      then show ?thesis by (rule via)
    next
      case False
      with assms(1) have "find P tbls1 \<noteq> Some t" by simp
      with t(1) have "t \<in> set ?tbls2" by (rule update_first_others)
      with t(2,3) show ?thesis
        unfolding in_encoded_glyphs by blast
    qed
  qed
qed

lemma fix_pua_unfold:
  assumes "get_cmap f = Inr tbls"
    and "filter (\<lambda>g. g \<notin> set (encoded_glyphs tbls)) (glyphOrder f) \<noteq> []"
  shows "fix_pua f =
     (case (case getcmap tbls 3 10 of
                 Some t \<Rightarrow> Inr tbls
               | None \<Rightarrow>
                   (case find_ucs2cmap tbls of
                         None \<Rightarrow> Inr (tbls @ [\<lparr>cmap_platformID = 3, cmap_platEncID = 10,
                                    cmap_language = 0, cmap_format = 12, cmap = None\<rparr>])
                       | Some u \<Rightarrow>
                           (case cmap u of
                              None \<Rightarrow> Inl AttributeError
                            | Some d \<Rightarrow> Inr (tbls @ [\<lparr>cmap_platformID = 3, cmap_platEncID = 10,
                                    cmap_language = 0, cmap_format = 12, cmap = Some d\<rparr>])))) of
        Inl e \<Rightarrow> Inl e
      | Inr tbls1 \<Rightarrow>
     (case getcmap tbls1 3 10 of
        None \<Rightarrow> Inl AttributeError
      | Some ucs4cmap \<Rightarrow>
     (case pua_loop (filter (\<lambda>g. g \<notin> set (encoded_glyphs tbls)) (glyphOrder f)) 0
             (glyphOrder f) (cmap ucs4cmap) of
        Inl e \<Rightarrow> Inl e
      | Inr d \<Rightarrow>
          Inr (RValue True,
               set_table ''cmap''
                 (Cmap (update_first (\<lambda>t. cmap_platformID t = 3 \<and> cmap_platEncID t = 10)
                          (\<lambda>t. t\<lparr>cmap := d\<rparr>) tbls1))
                 f))))"
  using assms
  by (cases "getcmap tbls 3 10"; cases "find_ucs2cmap tbls")
     (simp_all add: fix_pua_def get_unencoded_glyphs_def Let_def split: option.splits)

lemma fix_pua_nothing:
  assumes "get_cmap f = Inr tbls"
    and "\<forall>g\<in>set (glyphOrder f). g \<in> set (encoded_glyphs tbls)"
  shows "fix_pua f = Inr (RValue False, f)"
proof -
  have "filter (\<lambda>g. g \<notin> set (encoded_glyphs tbls)) (glyphOrder f) = []"
    using assms(2) by (simp add: filter_empty_conv)
  with assms(1) show ?thesis
    by (simp add: fix_pua_def get_unencoded_glyphs_def)
qed

lemma get_cmap_set_table [simp]: "get_cmap (set_table ''cmap'' (Cmap t) f) = Inr t"
  by (simp add: get_cmap_def set_table_def)

lemma find_append_None:
  "find P xs = None \<Longrightarrow> find P (xs @ ys) = find P ys"
  by (induction xs) (auto split: if_splits)

lemma idem_fix_pua:
  assumes "fix_pua f = Inr (r1, f1)" and "pua_slots_free f"
  shows "fix_pua f1 = Inr (RValue False, f1)"
proof -
  obtain tbls where c: "get_cmap f = Inr tbls"
    using assms(1)
    by (cases "get_cmap f") (simp_all add: fix_pua_def get_unencoded_glyphs_def)
  define order where "order = glyphOrder f"
  define U where "U = filter (\<lambda>g. g \<notin> set (encoded_glyphs tbls)) order"
  define P where "P = (\<lambda>t::cmap_subtable. cmap_platformID t = 3 \<and> cmap_platEncID t = 10)"
  have gp: "getcmap ts 3 10 = find P ts" for ts
    by (simp add: getcmap_def P_def)
  show ?thesis
  proof (cases "U = []")
    case True
    then have all: "\<forall>g\<in>set (glyphOrder f). g \<in> set (encoded_glyphs tbls)"
      by (simp add: U_def order_def filter_empty_conv)
    from fix_pua_nothing [OF c all] assms(1) have "f1 = f" by simp
    with fix_pua_nothing [OF c all] show ?thesis by simp
  next
    case False
    then obtain g0 where g0: "g0 \<in> set U" by (cases U) auto
    then have hit: "set order \<inter> set U \<noteq> {}"
      by (auto simp: U_def)
    have enc: "g \<in> set U \<or> g \<in> set (encoded_glyphs tbls)" if "g \<in> set order" for g
      using that by (auto simp: U_def)
    note unf = fix_pua_unfold [OF c False [unfolded U_def order_def],
        folded order_def, folded U_def, unfolded gp, folded P_def]
    have "\<exists>tbls1 t4 d0 d1. find P tbls1 = Some t4 \<and> cmap t4 = Some d0
            \<and> pua_loop U 0 order (Some d0) = Inr (Some d1)
            \<and> f1 = set_table ''cmap'' (Cmap (update_first P (\<lambda>t. t\<lparr>cmap := Some d1\<rparr>) tbls1)) f
            \<and> (\<forall>g\<in>set order. g \<in> set U
                  \<or> (\<exists>t\<in>set tbls1. \<exists>d code. cmap t = Some d \<and> (code, g) \<in> set d
                        \<and> (t = t4 \<longrightarrow> (\<forall>j<length order. order ! j \<in> set U \<longrightarrow> code \<noteq> 0xF0000 + int j))))"
    proof (cases "find P tbls")
      case (Some t4)
      with unf assms(1) have run:
        "(case pua_loop U 0 order (cmap t4) of
            Inl e \<Rightarrow> Inl e
          | Inr d \<Rightarrow> Inr (RValue True,
               set_table ''cmap'' (Cmap (update_first P (\<lambda>t. t\<lparr>cmap := d\<rparr>) tbls)) f))
         = Inr (r1, f1)"
        by simp
      obtain d0 where d0: "cmap t4 = Some d0"
      proof (cases "cmap t4")
        case None
        with run obtain m where "pua_loop U 0 order None = Inr m"
          by (cases "pua_loop U 0 order None") simp_all
        from pua_loop_None [OF this] hit show ?thesis by simp
      next
        case (Some d)
        then show ?thesis by (rule that)
      qed
      from pua_loop_Some [of U 0 order d0] obtain d1 where
        d1: "pua_loop U 0 order (Some d0) = Inr (Some d1)" by blast
      with run d0 have f1: "f1 = set_table ''cmap''
            (Cmap (update_first P (\<lambda>t. t\<lparr>cmap := Some d1\<rparr>) tbls)) f"
        by simp
      from assms(2) c Some d0 have free:
        "list_all (\<lambda>(i, g). g \<in> set (encoded_glyphs tbls) \<or> map_of d0 (0xF0000 + int i) = None)
           (enumerate 0 order)"
        by (simp add: pua_slots_free_def gp order_def)
      have slot: "map_of d0 (0xF0000 + int j) = None" if "j < length order" "order ! j \<in> set U" for j
      proof -
        from that(1) have "(j, order ! j) \<in> set (enumerate 0 order)"
          by (simp add: in_set_enumerate_eq)
        from free [unfolded list_all_iff, THEN bspec, OF this]
        have "order ! j \<in> set (encoded_glyphs tbls) \<or> map_of d0 (0xF0000 + int j) = None"
          by simp
        moreover from that(2) have "order ! j \<notin> set (encoded_glyphs tbls)"
          by (simp add: U_def)
        ultimately show ?thesis by simp
      qed
      have h: "g \<in> set U
                  \<or> (\<exists>t\<in>set tbls. \<exists>d code. cmap t = Some d \<and> (code, g) \<in> set d
                        \<and> (t = t4 \<longrightarrow> (\<forall>j<length order. order ! j \<in> set U \<longrightarrow> code \<noteq> 0xF0000 + int j)))"
        if "g \<in> set order" for g
      proof (cases "g \<in> set U")
        case True
        then show ?thesis by simp
      next
        case False
        with enc [OF that] obtain t d code where
          t: "t \<in> set tbls" "cmap t = Some d" "(code, g) \<in> set d"
          unfolding in_encoded_glyphs by blast
        have "\<forall>j<length order. order ! j \<in> set U \<longrightarrow> code \<noteq> 0xF0000 + int j" if "t = t4"
        proof (intro allI impI)
          fix j assume j: "j < length order" "order ! j \<in> set U"
          from that t(2) d0 have "d = d0" by simp
          with t(3) have "map_of d0 code \<noteq> None"
            by (simp add: map_of_eq_None_iff image_iff) force
          with slot [OF j] show "code \<noteq> 0xF0000 + int j" by auto
        qed
        with t show ?thesis by blast
      qed
      from Some d0 d1 f1 h show ?thesis by blast
    next
      case None
      let ?new = "\<lparr>cmap_platformID = 3, cmap_platEncID = 10,
                      cmap_language = 0, cmap_format = 12, cmap = None\<rparr>"
      have pn: "P (?new\<lparr>cmap := m\<rparr>)" for m
        by (simp add: P_def)
      have fnd: "find P (tbls @ [?new\<lparr>cmap := m\<rparr>]) = Some (?new\<lparr>cmap := m\<rparr>)" for m
        using find_append_None [OF None, of "[?new\<lparr>cmap := m\<rparr>]"] pn [of m] by simp
      show ?thesis
      proof (cases "find_ucs2cmap tbls")
        case n2: None
        from unf None n2 fnd [of None] assms(1) obtain m where
          "pua_loop U 0 order None = Inr m"
          by (cases "pua_loop U 0 order None") simp_all
        from pua_loop_None [OF this] hit show ?thesis by simp
      next
        case (Some u)
        show ?thesis
        proof (cases "cmap u")
          case n3: None
          with unf None Some assms(1) show ?thesis by simp
        next
          case d: (Some d0)
          let ?t4 = "?new\<lparr>cmap := Some d0\<rparr>"
          from pua_loop_Some [of U 0 order d0] obtain d1 where
            d1: "pua_loop U 0 order (Some d0) = Inr (Some d1)" by blast
          from unf None Some d fnd [of "Some d0"] d1 assms(1)
          have f1: "f1 = set_table ''cmap''
                (Cmap (update_first P (\<lambda>t. t\<lparr>cmap := Some d1\<rparr>) (tbls @ [?t4]))) f"
            by simp
          have h: "g \<in> set U
                  \<or> (\<exists>t\<in>set (tbls @ [?t4]). \<exists>d code. cmap t = Some d \<and> (code, g) \<in> set d
                        \<and> (t = ?t4 \<longrightarrow> (\<forall>j<length order. order ! j \<in> set U \<longrightarrow> code \<noteq> 0xF0000 + int j)))"
            if "g \<in> set order" for g
          proof (cases "g \<in> set U")
            case True
            then show ?thesis by simp
          next
            case False
            with enc [OF that] obtain t dd code where
              t: "t \<in> set tbls" "cmap t = Some dd" "(code, g) \<in> set dd"
              unfolding in_encoded_glyphs by blast
            from None t(1) have "\<not> P t"
              by (simp add: find_None_iff)
            with pn [of "Some d0"] have "t \<noteq> ?t4" by auto
            with t show ?thesis by auto
          qed
          have c4: "cmap ?t4 = Some d0" by simp
          from fnd [of "Some d0"] c4 d1 f1 h show ?thesis by blast
        qed
      qed
    qed
    then obtain tbls1 t4 d0 d1 where
      k: "find P tbls1 = Some t4" "cmap t4 = Some d0"
         "pua_loop U 0 order (Some d0) = Inr (Some d1)"
      and f1: "f1 = set_table ''cmap'' (Cmap (update_first P (\<lambda>t. t\<lparr>cmap := Some d1\<rparr>) tbls1)) f"
      and h: "\<forall>g\<in>set order. g \<in> set U
                  \<or> (\<exists>t\<in>set tbls1. \<exists>d code. cmap t = Some d \<and> (code, g) \<in> set d
                        \<and> (t = t4 \<longrightarrow> (\<forall>j<length order. order ! j \<in> set U \<longrightarrow> code \<noteq> 0xF0000 + int j)))"
      by blast
    let ?tbls2 = "update_first P (\<lambda>t. t\<lparr>cmap := Some d1\<rparr>) tbls1"
    have c1: "get_cmap f1 = Inr ?tbls2"
      unfolding f1 by simp
    have o1: "glyphOrder f1 = order"
      unfolding f1 by (simp add: order_def)
    from pua_tail [OF k h] have "\<forall>g\<in>set (glyphOrder f1). g \<in> set (encoded_glyphs ?tbls2)"
      unfolding o1 .
    with c1 show ?thesis by (rule fix_pua_nothing)
  qed
qed

subsection \<open>Fixed-pitch detection\<close>

lemma py_max_Max: "ws \<noteq> [] \<Longrightarrow> py_max ws = Max (set ws)"
  by (cases ws) (simp_all add: fold_max_Max)

text \<open>
  C5. What \<^verbatim>\<open>fix_isFixedPitch\<close> does on a font whose glyphs \<^verbatim>\<open>A\<close> to \<^verbatim>\<open>Z\<close> share one
  advance width (with \<^verbatim>\<open>post\<close>, \<^verbatim>\<open>OS/2\<close> and \<^verbatim>\<open>hhea\<close> tables and some positive width).
  When \<^verbatim>\<open>hhea.advanceWidthMax\<close> already is the maximum of the positive widths, the call
  returns, with \<^verbatim>\<open>isFixedPitch\<close> 1, the panose values and the rounded average stored, and
  the flag true iff one of them changed. When \<^verbatim>\<open>hhea.advanceWidthMax\<close> differs from the
  maximum, the call raises \<^verbatim>\<open>NameError\<close> (line 542) instead of storing the maximum.
\<close>

theorem fix_isFixedPitch_monospace:
  assumes "get_hmtx f = Inr gm" and "sample_widths gm uppercase_glyphs = Inr ws"
    and "length (remdups ws) = 1"
    and "get_post f = Inr post" and "get_OS2 f = Inr os2" and "get_hhea f = Inr hhea"
    and "positive_widths gm \<noteq> []"
  shows "(advanceWidthMax hhea \<noteq> Max (set (positive_widths gm)) \<longrightarrow>
            fix_isFixedPitch f = Inl NameError)
       \<and> (advanceWidthMax hhea = Max (set (positive_widths gm)) \<longrightarrow>
            (\<exists>msgs. fix_isFixedPitch f =
               Inr ((isFixedPitch post \<noteq> 1 \<or> monospace_panose (panose os2) \<noteq> panose os2
                       \<or> average_width gm \<noteq> xAvgCharWidth os2, msgs),
                    set_table ''OS/2''
                      (OS2 (os2\<lparr>panose := monospace_panose (panose os2),
                                 xAvgCharWidth := average_width gm\<rparr>))
                      (set_table ''post'' (Post (post\<lparr>isFixedPitch := 1\<rparr>)) f))))"
proof (intro conjI impI)
  have br: "fix_isFixedPitch f = fixed_pitch_monospace f gm"
    using assms(1,2,3) by (simp add: fix_isFixedPitch_def)
  have mx: "py_max (positive_widths gm) = Max (set (positive_widths gm))"
    using assms(7) by (rule py_max_Max)
  {
    assume "advanceWidthMax hhea \<noteq> Max (set (positive_widths gm))"
    then have ne: "advanceWidthMax hhea \<noteq> py_max (positive_widths gm)"
      by (simp add: mx)
    have "fixed_pitch_monospace f gm = Inl NameError"
    proof (cases "fixed_pitch_monospace f gm")
      case (Inl e)
      then show ?thesis
        using assms(4,5,6,7) ne
        by (auto simp: fixed_pitch_monospace_def Let_def positive_widths_def
            split: prod.splits if_splits option.splits)
    next
      case (Inr r)
      obtain res f1 where "r = (res, f1)" by (cases r)
      with Inr fixed_pitch_monospace_Inr [of f gm res f1] assms(6) ne show ?thesis by auto
    qed
    then show "fix_isFixedPitch f = Inl NameError"
      by (simp add: br)
  }
  {
    assume "advanceWidthMax hhea = Max (set (positive_widths gm))"
    then have eq: "advanceWidthMax hhea = py_max (positive_widths gm)"
      by (simp add: mx)
    from fixed_pitch_monospace_total [OF assms(4,5,6,7) eq]
    show "\<exists>msgs. fix_isFixedPitch f =
               Inr ((isFixedPitch post \<noteq> 1 \<or> monospace_panose (panose os2) \<noteq> panose os2
                       \<or> average_width gm \<noteq> xAvgCharWidth os2, msgs),
                    set_table ''OS/2''
                      (OS2 (os2\<lparr>panose := monospace_panose (panose os2),
                                 xAvgCharWidth := average_width gm\<rparr>))
                      (set_table ''post'' (Post (post\<lparr>isFixedPitch := 1\<rparr>)) f))"
      unfolding br .
  }
qed

theorem fix_isFixedPitch_monospace_witness:
  "get_hhea (monospace_font 500)
     = Inr \<lparr>ascent = 800, descent = - 200, lineGap = 0, advanceWidthMax = 500\<rparr>
   \<and> fix_isFixedPitch (monospace_font 500) = Inl NameError
   \<and> (\<exists>msgs. fix_isFixedPitch (monospace_font 600) =
         Inr ((True, msgs),
              set_table ''OS/2''
                (OS2 (example_os2\<lparr>panose := \<lparr>bFamilyType = 2, bProportion = 9\<rparr>,
                                  xAvgCharWidth := 600\<rparr>))
                (set_table ''post'' (Post \<lparr>italicAngle = 0, isFixedPitch = 1\<rparr>)
                   (monospace_font 600))))"
proof -
  let ?gm = "(''.notdef'', 0, 0) # map (\<lambda>g. (g, 600, 10)) uppercase_glyphs"
  let ?post = "\<lparr>italicAngle = 0, isFixedPitch = 0\<rparr>"
  have h1: "get_hmtx (monospace_font w) = Inr ?gm" for w
    by (simp add: get_hmtx_def monospace_font_def)
  have h2: "sample_widths ?gm uppercase_glyphs = Inr (map (\<lambda>g. 600) uppercase_glyphs)"
    by (simp add: uppercase_glyphs_def)
  have h3: "length (remdups (map (\<lambda>g. 600::int) uppercase_glyphs)) = 1"
    by (simp add: uppercase_glyphs_def)
  have h4: "get_post (monospace_font w) = Inr ?post" for w
    by (simp add: get_post_def monospace_font_def)
  have h5: "get_OS2 (monospace_font w) = Inr example_os2" for w
    by (simp add: get_OS2_def monospace_font_def)
  have h6: "get_hhea (monospace_font w)
     = Inr \<lparr>ascent = 800, descent = - 200, lineGap = 0, advanceWidthMax = w\<rparr>" for w
    by (simp add: get_hhea_def monospace_font_def)
  have pw: "positive_widths ?gm = map (\<lambda>g. 600) uppercase_glyphs"
    by (simp add: positive_widths_def uppercase_glyphs_def)
  have h7: "positive_widths ?gm \<noteq> []"
    unfolding pw by (simp add: uppercase_glyphs_def)
  have mx: "Max (set (positive_widths ?gm)) = 600"
    unfolding pw by (simp add: uppercase_glyphs_def)
  have av: "average_width ?gm = 600"
    unfolding average_width_def pw by (simp add: otRound_def uppercase_glyphs_def)
  have pn: "monospace_panose (panose example_os2) = \<lparr>bFamilyType = 2, bProportion = 9\<rparr>"
    by (simp add: monospace_panose_def example_os2_def)
  note t = fix_isFixedPitch_monospace [OF h1 h2 h3 h4 h5 h6 h7]
  have a: "fix_isFixedPitch (monospace_font 500) = Inl NameError"
    using t [of 500, THEN conjunct1] by (simp add: mx)
  from t [of 600, THEN conjunct2] obtain msgs where
    "fix_isFixedPitch (monospace_font 600) =
               Inr ((isFixedPitch ?post \<noteq> 1 \<or> monospace_panose (panose example_os2) \<noteq> panose example_os2
                       \<or> average_width ?gm \<noteq> xAvgCharWidth example_os2, msgs),
                    set_table ''OS/2''
                      (OS2 (example_os2\<lparr>panose := monospace_panose (panose example_os2),
                                 xAvgCharWidth := average_width ?gm\<rparr>))
                      (set_table ''post'' (Post (?post\<lparr>isFixedPitch := 1\<rparr>)) (monospace_font 600)))"
    by (auto simp: mx)
  then have b: "fix_isFixedPitch (monospace_font 600) =
         Inr ((True, msgs),
              set_table ''OS/2''
                (OS2 (example_os2\<lparr>panose := \<lparr>bFamilyType = 2, bProportion = 9\<rparr>,
                                  xAvgCharWidth := 600\<rparr>))
                (set_table ''post'' (Post \<lparr>italicAngle = 0, isFixedPitch = 1\<rparr>)
                   (monospace_font 600)))"
    by (simp add: av pn)
  from h6 [of 500] a b show ?thesis by blast
qed

subsection \<open>The rule set as a whole\<close>

lemma as_bool_rule_Inr:
  "as_bool_rule x = Inr (r, f) \<longleftrightarrow> (\<exists>c. x = Inr (c, f) \<and> r = RValue c)"
  by (cases x) (auto simp: as_bool_rule_def)

lemma fix_pua_example:
  "fix_pua pua_example_font = Inr (RValue True, pua_example_fixed)"
  by (simp add: fix_pua_def get_unencoded_glyphs_def get_cmap_def pua_example_font_def
      pua_example_fixed_def encoded_glyphs_def getcmap_def find_ucs2cmap_def set_table_def Let_def)

lemma fix_pua_taken_slot:
  "fix_pua (pua_taken_font [(0xF0001, ''x'')]) = Inr (RValue True, pua_taken_font [(0xF0001, ''y'')])
   \<and> fix_pua (pua_taken_font [(0xF0001, ''y'')])
       = Inr (RValue True, pua_taken_font [(0xF0001, ''y''), (0xF0000, ''x'')])"
  by (simp add: fix_pua_def get_unencoded_glyphs_def get_cmap_def pua_taken_font_def
      encoded_glyphs_def getcmap_def find_ucs2cmap_def set_table_def Let_def)

text \<open>
  Where the rules are idempotent. Table pruning, \<^verbatim>\<open>fsType\<close>, \<^verbatim>\<open>fsSelection\<close>, \<^verbatim>\<open>macStyle\<close>,
  weight class, italic angle and fixed-pitch: on every font on which a first application
  returns, a second application returns as well, reports no change and leaves the font as
  the first application left it. The same holds of a name-pruning rule on a font with at
  most one Macintosh record per pruned name identifier, and of the PUA remap on a font
  whose UCS-4 subtable maps none of the code points that the call writes.
\<close>

lemma rules_idempotent_when_returning:
  assumes "apply_rule known R F = Inr (r1, F1)"
    and "R = NamePruningAll \<Longrightarrow> single_mac_records (\<lambda>n. False) F"
    and "R = NamePruningSuperfluous \<Longrightarrow> single_mac_records (\<lambda>n. n \<in> set keep_ids) F"
    and "R = PuaRemap \<Longrightarrow> pua_slots_free F"
  shows "\<exists>r2. apply_rule known R F1 = Inr (r2, F1) \<and> \<not> rv_changed r2"
proof (cases R)
  case (TablePruning tbls)
  with assms(1) have "F1 = remove_tables F tbls"
    by (simp add: apply_rule_def)
  with TablePruning show ?thesis
    by (simp add: apply_rule_def idem_remove_tables)
next
  case EmbeddingPermission
  with assms(1) obtain c where "fix_fs_type F = Inr (c, F1)"
    by (auto simp: apply_rule_def as_bool_rule_Inr)
  from idem_fix_fs_type [OF this] EmbeddingPermission show ?thesis
    by (simp add: apply_rule_def as_bool_rule_def)
next
  case SelectionFlags
  with assms(1) obtain c where "fix_fs_selection F = Inr (c, F1)"
    by (auto simp: apply_rule_def as_bool_rule_Inr)
  from idem_fix_fs_selection [OF this] SelectionFlags show ?thesis
    by (simp add: apply_rule_def as_bool_rule_def)
next
  case MacStyleFlags
  with assms(1) obtain c where "fix_mac_style F = Inr (c, F1)"
    by (auto simp: apply_rule_def as_bool_rule_Inr)
  from idem_fix_mac_style [OF this] MacStyleFlags show ?thesis
    by (simp add: apply_rule_def as_bool_rule_def)
next
  case WeightClass
  with assms(1) obtain c where "fix_weight_class known F = Inr (c, F1)"
    by (auto simp: apply_rule_def as_bool_rule_Inr)
  from idem_fix_weight_class [OF this] WeightClass show ?thesis
    by (simp add: apply_rule_def as_bool_rule_def)
next
  case ItalicAngle
  with assms(1) obtain c where "fix_italic_angle F = Inr (c, F1)"
    by (auto simp: apply_rule_def as_bool_rule_Inr)
  from idem_fix_italic_angle [OF this] ItalicAngle show ?thesis
    by (simp add: apply_rule_def as_bool_rule_def)
next
  case FixedPitch
  with assms(1) obtain c msgs where "fix_isFixedPitch F = Inr ((c, msgs), F1)"
    by (auto simp: apply_rule_def split: sum.splits)
  from idem_fix_isFixedPitch [OF this] FixedPitch show ?thesis
    by (auto simp: apply_rule_def)
next
  case NamePruningAll
  with assms(1) obtain c where "drop_mac_names F = Inr (c, F1)"
    by (auto simp: apply_rule_def as_bool_rule_Inr)
  from idem_drop_mac_names [OF this] assms(2) NamePruningAll show ?thesis
    by (simp add: apply_rule_def as_bool_rule_def)
next
  case NamePruningSuperfluous
  with assms(1) obtain c where "drop_superfluous_mac_names F = Inr (c, F1)"
    by (auto simp: apply_rule_def as_bool_rule_Inr)
  from idem_drop_superfluous_mac_names [OF this] assms(3) NamePruningSuperfluous show ?thesis
    by (simp add: apply_rule_def as_bool_rule_def)
next
  case PuaRemap
  with assms(1) have "fix_pua F = Inr (r1, F1)"
    by (simp add: apply_rule_def)
  from idem_fix_pua [OF this] assms(4) PuaRemap show ?thesis
    by (simp add: apply_rule_def)
qed

lemma drop_mac_names_two_copyrights:
  "drop_mac_names (duplicate_names_font [mac_name 0, second_copyright])
     = Inr (True, duplicate_names_font [second_copyright])"
proof -
  have "find (is_mac_record n) [second_copyright] = None" if "n \<in> set (map int [1..<255])" for n
    using that by (auto simp: is_mac_record_def mac_name_def second_copyright_def)
  then have "drop_names_loop (\<lambda>n. False) (map int [1..<255]) (True, [second_copyright])
               = (True, [second_copyright])"
    by (intro drop_names_loop_nothing) blast
  then have "drop_names_loop (\<lambda>n. False) range255 (False, [mac_name 0, second_copyright])
               = (True, [second_copyright])"
    by (simp add: range255_unfold getName_mac is_mac_record_def mac_name_def)
  then show ?thesis
    by (simp add: drop_mac_names_def get_name_def duplicate_names_font_def set_table_def)
qed

lemma drop_mac_names_one_copyright:
  "drop_mac_names (duplicate_names_font [second_copyright])
     = Inr (True, duplicate_names_font [])"
proof -
  have "find (is_mac_record n) [] = None" for n
    by simp
  then have "drop_names_loop (\<lambda>n. False) (map int [1..<255]) (True, []) = (True, [])"
    by (intro drop_names_loop_nothing) blast
  then have "drop_names_loop (\<lambda>n. False) range255 (False, [second_copyright]) = (True, [])"
    by (simp add: range255_unfold getName_mac is_mac_record_def mac_name_def
        second_copyright_def)
  then show ?thesis
    by (simp add: drop_mac_names_def get_name_def duplicate_names_font_def set_table_def)
qed

lemma rules_idempotent_examples:
  "apply_rule example_known_weights PuaRemap pua_example_font
     = Inr (RValue True, pua_example_fixed)
   \<and> pua_slots_free pua_example_font
   \<and> pua_slots_free pua_example_fixed
   \<and> apply_rule example_known_weights PuaRemap pua_example_fixed
       = Inr (RValue False, pua_example_fixed)
   \<and> apply_rule example_known_weights NamePruningAll (duplicate_names_font [second_copyright])
       = Inr (RValue True, duplicate_names_font [])
   \<and> single_mac_records (\<lambda>n. False) (duplicate_names_font [second_copyright])
   \<and> single_mac_records (\<lambda>n. n \<in> set keep_ids)
         (duplicate_names_font [mac_name 1, (mac_name 1)\<lparr>string := ''Second family''\<rparr>])
   \<and> (\<exists>r2. apply_rule example_known_weights NamePruningAll (duplicate_names_font [])
               = Inr (r2, duplicate_names_font []) \<and> \<not> rv_changed r2)"
proof -
  have p1: "apply_rule example_known_weights PuaRemap pua_example_font
     = Inr (RValue True, pua_example_fixed)"
    by (simp add: apply_rule_def fix_pua_example)
  have p2: "pua_slots_free pua_example_font"
    by (simp add: pua_slots_free_def get_cmap_def pua_example_font_def getcmap_def)
  have p2': "pua_slots_free pua_example_fixed"
    by (simp add: pua_slots_free_def get_cmap_def pua_example_font_def pua_example_fixed_def
        getcmap_def set_table_def encoded_glyphs_def)
  from rules_idempotent_when_returning [OF p1] p2
  obtain r2 where r2: "apply_rule example_known_weights PuaRemap pua_example_fixed
               = Inr (r2, pua_example_fixed)" "\<not> rv_changed r2"
    by auto
  then have p3: "apply_rule example_known_weights PuaRemap pua_example_fixed
       = Inr (RValue False, pua_example_fixed)"
    by (auto simp: apply_rule_def fix_pua_def Let_def split: if_splits option.splits sum.splits)
  have n1: "apply_rule example_known_weights NamePruningAll (duplicate_names_font [second_copyright])
       = Inr (RValue True, duplicate_names_font [])"
    by (simp add: apply_rule_def as_bool_rule_def drop_mac_names_one_copyright)
  have n2: "single_mac_records (\<lambda>n. False) (duplicate_names_font [second_copyright])"
    by (simp add: single_mac_records_def get_name_def duplicate_names_font_def)
  have n2': "single_mac_records (\<lambda>n. n \<in> set keep_ids)
         (duplicate_names_font [mac_name 1, (mac_name 1)\<lparr>string := ''Second family''\<rparr>])"
    by (simp add: single_mac_records_def get_name_def duplicate_names_font_def mac_name_def
        keep_ids_def)
  have n3: "\<exists>r2. apply_rule example_known_weights NamePruningAll (duplicate_names_font [])
               = Inr (r2, duplicate_names_font []) \<and> \<not> rv_changed r2"
    using n2 by (intro rules_idempotent_when_returning [OF n1]) simp_all
  from p1 p2 p2' p3 n1 n2 n2' n3 show ?thesis by blast
qed

text \<open>
  C1. Idempotence fails for \<^verbatim>\<open>drop_mac_names\<close>. On a name table with two Macintosh
  records of name identifier 0 (platform 1, encoding 0, language 0) the first call removes
  one record only and returns true: the table it leaves still holds a Macintosh record,
  against the function's docstring \<^verbatim>\<open>Drop all mac names\<close>. The second call removes that
  record and returns true again, where a second application is to report no change.
\<close>

theorem drop_mac_names_not_idempotent:
  "drop_mac_names (duplicate_names_font [mac_name 0, second_copyright])
     = Inr (True, duplicate_names_font [second_copyright])
   \<and> get_name (duplicate_names_font [second_copyright]) = Inr [second_copyright]
   \<and> platformID second_copyright = 1 \<and> platEncID second_copyright = 0
   \<and> langID second_copyright = 0 \<and> nameID second_copyright = 0
   \<and> drop_mac_names (duplicate_names_font [second_copyright])
       = Inr (True, duplicate_names_font [])
   \<and> apply_rule example_known_weights NamePruningAll
         (duplicate_names_font [mac_name 0, second_copyright])
       = Inr (RValue True, duplicate_names_font [second_copyright])
   \<and> apply_rule example_known_weights NamePruningAll (duplicate_names_font [second_copyright])
       = Inr (RValue True, duplicate_names_font [])
   \<and> rv_changed (RValue True)"
proof -
  have g: "get_name (duplicate_names_font [second_copyright]) = Inr [second_copyright]"
    by (simp add: get_name_def duplicate_names_font_def)
  have r: "platformID second_copyright = 1" "platEncID second_copyright = 0"
    "langID second_copyright = 0" "nameID second_copyright = 0"
    by (simp_all add: second_copyright_def mac_name_def)
  have a1: "apply_rule example_known_weights NamePruningAll
         (duplicate_names_font [mac_name 0, second_copyright])
       = Inr (RValue True, duplicate_names_font [second_copyright])"
    by (simp add: apply_rule_def as_bool_rule_def drop_mac_names_two_copyrights)
  have a2: "apply_rule example_known_weights NamePruningAll
         (duplicate_names_font [second_copyright])
       = Inr (RValue True, duplicate_names_font [])"
    by (simp add: apply_rule_def as_bool_rule_def drop_mac_names_one_copyright)
  have c: "rv_changed (RValue True)"
    by simp
  from drop_mac_names_two_copyrights g r drop_mac_names_one_copyright a1 a2 c
  show ?thesis by (intro conjI)
qed

end
